theory Spec2Isabelle
  imports Main "HOL-Library.Word" "HOL-Library.Sublist"
begin

section \<open>Strings of the viewer\<close>

text \<open>
  A JavaScript string is a sequence of 16-bit code units; \<open>charCodeAt\<close>, \<open>slice\<close>,
  \<open>endsWith\<close> and a regular expression without the \<open>u\<close> flag all work on code units.
  ASCII literals of the source are written with \<open>js\<close>.
\<close>

type_synonym jschar = "16 word"
type_synonym jsstring = "jschar list"

definition js :: "string \<Rightarrow> jsstring" where
  "js s = map (\<lambda>c. of_nat (of_char c)) s"

text \<open>The markers of \<open>viewer/app.js\<close>: U+300C, U+300D, U+2015, U+FF08, U+FF09.\<close>

definition openMark :: jschar where "openMark = 0x300C"
definition closeMark :: jschar where "closeMark = 0x300D"
definition dashMark :: jschar where "dashMark = 0x2015"
definition parenOpen :: jschar where "parenOpen = 0xFF08"
definition parenClose :: jschar where "parenClose = 0xFF09"

text \<open>
  \<open>\s\<close> of a regular expression and the characters \<open>trim\<close> removes are the same set:
  WhiteSpace (TAB, VT, FF, SP, NBSP, ZWNBSP and the Unicode space separators) and
  LineTerminator (LF, CR, LS, PS).  \<open>.\<close> matches everything but a LineTerminator.
\<close>

definition isLineTerminator :: "jschar \<Rightarrow> bool" where
  "isLineTerminator c = (c = 0x0A \<or> c = 0x0D \<or> c = 0x2028 \<or> c = 0x2029)"

definition isWhiteSpace :: "jschar \<Rightarrow> bool" where
  "isWhiteSpace c =
     (c = 0x09 \<or> c = 0x0B \<or> c = 0x0C \<or> c = 0x20 \<or> c = 0xA0 \<or> c = 0xFEFF \<or>
      c = 0x1680 \<or> (0x2000 \<le> c \<and> c \<le> 0x200A) \<or> c = 0x202F \<or> c = 0x205F \<or> c = 0x3000 \<or>
      isLineTerminator c)"

definition trim :: "jsstring \<Rightarrow> jsstring" where
  "trim s = rev (dropWhile isWhiteSpace (rev (dropWhile isWhiteSpace s)))"

text \<open>\<open>text.split("\n")\<close>: the pieces between line feeds; the empty string gives one empty piece.\<close>

fun split_nl :: "jsstring \<Rightarrow> jsstring list" where
  "split_nl [] = [[]]"
| "split_nl (c # cs) =
     (if c = 0x0A then [] # split_nl cs
      else (case split_nl cs of l # ls \<Rightarrow> (c # l) # ls | [] \<Rightarrow> [[c]]))"

definition startsWith :: "jsstring \<Rightarrow> jsstring \<Rightarrow> bool" where
  "startsWith s p = (take (length p) s = p)"

definition endsWith :: "jsstring \<Rightarrow> jsstring \<Rightarrow> bool" where
  "endsWith s p = (drop (length s - length p) s = p)"

text \<open>\<open>content.slice(0, -1)\<close>: all but the last code unit.\<close>

definition slice_0_m1 :: "jsstring \<Rightarrow> jsstring" where
  "slice_0_m1 s = take (length s - 1) s"

section \<open>Scene parsing\<close>

text \<open>The objects \<open>{type, name, text}\<close> pushed by \<open>parseScene\<close>: \<open>Speech name text\<close>.\<close>

datatype block =
    Speech jsstring jsstring
  | Separator jsstring
  | Narration jsstring

text \<open>
  \<open>line.match(/^(\S+?)\<dots>(.+)$/)\<close> with U+300C between the groups, as the backtracking
  matcher runs it.  The lazy \<open>\S+?\<close> takes one non-space code unit, then tries the rest of
  the pattern (the opening marker, then \<open>.+\<close> up to \<open>$\<close>, which without the \<open>m\<close> flag is
  the end of the string); when that fails it takes one more code unit and tries again.
  The result is the pair of the two groups.
\<close>

definition dotPlusToEnd :: "jsstring \<Rightarrow> bool" where
  "dotPlusToEnd r = (r \<noteq> [] \<and> list_all (\<lambda>d. \<not> isLineTerminator d) r)"

fun lazyRun :: "jsstring \<Rightarrow> jsstring \<Rightarrow> (jsstring \<times> jsstring) option" where
  "lazyRun run [] = None"
| "lazyRun run (c # cs) =
     (if c = openMark \<and> dotPlusToEnd cs then Some (run, cs)
      else if isWhiteSpace c then None
      else lazyRun (run @ [c]) cs)"

definition speechMatch :: "jsstring \<Rightarrow> (jsstring \<times> jsstring) option" where
  "speechMatch line =
     (case line of
        [] \<Rightarrow> None
      | c # cs \<Rightarrow> if isWhiteSpace c then None else lazyRun [c] cs)"

text \<open>
  The body of the loop of \<open>parseScene\<close>.  \<open>classifyLine\<close> is the part after the blank
  test; in \<open>parseLine\<close>, \<open>None\<close> is \<open>continue\<close> without a push.
\<close>

definition classifyLine :: "jsstring \<Rightarrow> block" where
  "classifyLine line =
     (case speechMatch line of
        Some (name, content) \<Rightarrow>
          Speech name (if endsWith content [closeMark] then slice_0_m1 content else content)
      | None \<Rightarrow>
          if startsWith line [dashMark, dashMark] then Separator line
          else Narration line)"

definition parseLine :: "jsstring \<Rightarrow> block option" where
  "parseLine line = (if trim line = [] then None else Some (classifyLine line))"

fun parseLoop :: "jsstring list \<Rightarrow> block list \<Rightarrow> block list" where
  "parseLoop [] blocks = blocks"
| "parseLoop (line # lines) blocks =
     (case parseLine line of
        None \<Rightarrow> parseLoop lines blocks
      | Some b \<Rightarrow> parseLoop lines (blocks @ [b]))"

definition parseScene :: "jsstring \<Rightarrow> block list" where
  "parseScene content = parseLoop (split_nl content) []"

section \<open>Rendering helpers\<close>

datatype error = URIError | TypeError | FetchError

text \<open>
  \<open>encodeURIComponent\<close>: the unreserved characters stay, every other code point becomes the
  \<open>%XX\<close> bytes of its UTF-8 form, and a surrogate without its partner throws \<open>URIError\<close>.
\<close>

definition uriUnreserved :: "jschar \<Rightarrow> bool" where
  "uriUnreserved c =
     ((0x41 \<le> c \<and> c \<le> 0x5A) \<or> (0x61 \<le> c \<and> c \<le> 0x7A) \<or> (0x30 \<le> c \<and> c \<le> 0x39) \<or>
      c \<in> set (js ''-_.!~*'()''))"

definition hexDigit :: "nat \<Rightarrow> jschar" where
  "hexDigit n = js ''0123456789ABCDEF'' ! n"

definition utf8 :: "nat \<Rightarrow> nat list" where
  "utf8 cp =
     (if cp < 0x80 then [cp]
      else if cp < 0x800 then [0xC0 + cp div 64, 0x80 + cp mod 64]
      else if cp < 0x10000 then [0xE0 + cp div 4096, 0x80 + cp div 64 mod 64, 0x80 + cp mod 64]
      else [0xF0 + cp div 262144, 0x80 + cp div 4096 mod 64, 0x80 + cp div 64 mod 64,
            0x80 + cp mod 64])"

definition percentEncode :: "nat \<Rightarrow> jsstring" where
  "percentEncode cp =
     concat (map (\<lambda>b. [0x25, hexDigit (b div 16), hexDigit (b mod 16)]) (utf8 cp))"

definition surrogatePair :: "jschar \<Rightarrow> jschar \<Rightarrow> nat" where
  "surrogatePair hi lo = (unat hi - 0xD800) * 0x400 + (unat lo - 0xDC00) + 0x10000"

fun encodeURIComponent :: "jsstring \<Rightarrow> error + jsstring" where
  "encodeURIComponent [] = Inr []"
| "encodeURIComponent (c # cs) =
     (if uriUnreserved c then
        (case encodeURIComponent cs of Inl e \<Rightarrow> Inl e | Inr r \<Rightarrow> Inr (c # r))
      else if c < 0xD800 \<or> 0xDFFF < c then
        (case encodeURIComponent cs of Inl e \<Rightarrow> Inl e
         | Inr r \<Rightarrow> Inr (percentEncode (unat c) @ r))
      else if 0xDC00 \<le> c then Inl URIError
      else (case cs of
              [] \<Rightarrow> Inl URIError
            | d # ds \<Rightarrow>
                if 0xDC00 \<le> d \<and> d \<le> 0xDFFF then
                  (case encodeURIComponent ds of Inl e \<Rightarrow> Inl e
                   | Inr r \<Rightarrow> Inr (percentEncode (surrogatePair c d) @ r))
                else Inl URIError))"

text \<open>
  \<open>esc\<close> puts the string into a text node and reads the \<open>innerHTML\<close> of its parent: the
  HTML serialisation of text replaces \<open>&\<close>, \<open><\<close>, \<open>>\<close> and U+00A0.
\<close>

definition esc :: "jsstring \<Rightarrow> jsstring" where
  "esc str =
     concat (map (\<lambda>c. if c = 0x26 then js ''&amp;''
                       else if c = 0x3C then js ''&lt;''
                       else if c = 0x3E then js ''&gt;''
                       else if c = 0xA0 then js ''&nbsp;''
                       else [c]) str)"

text \<open>The decimal digits of a number, as string concatenation writes a non-negative integer.\<close>

fun decimal :: "nat \<Rightarrow> jsstring" where
  "decimal n =
     (if n < 10 then [0x30 + of_nat n] else decimal (n div 10) @ [0x30 + of_nat (n mod 10)])"

text \<open>
  \<open>nameToColor\<close>.  \<open>hash\<close> is a Number holding an integer; \<open>hash << 5\<close> converts it to a
  32-bit signed integer and wraps the shifted value to 32 bits, the subtraction and the
  addition are not wrapped, and \<open>%\<close> takes the sign of the dividend.  The model computes on
  \<open>int\<close>, which is what the Number arithmetic gives while \<open>hash\<close> stays below \<open>2^53\<close> in
  absolute value; each step adds less than \<open>2^31 + 2^16\<close> to it.
\<close>

definition toInt32 :: "int \<Rightarrow> int" where
  "toInt32 x = (x + 2 ^ 31) mod 2 ^ 32 - 2 ^ 31"

definition shiftLeft5 :: "int \<Rightarrow> int" where
  "shiftLeft5 x = toInt32 (toInt32 x * 32)"

definition jsRemainder :: "int \<Rightarrow> int \<Rightarrow> int" where
  "jsRemainder a b = sgn a * (\<bar>a\<bar> mod \<bar>b\<bar>)"

fun hashLoop :: "jsstring \<Rightarrow> int \<Rightarrow> int" where
  "hashLoop [] hash = hash"
| "hashLoop (c # cs) hash = hashLoop cs (uint c + (shiftLeft5 hash - hash))"

definition nameToColor :: "jsstring \<Rightarrow> jsstring" where
  "nameToColor name =
     (let hash = hashLoop name 0;
          hue = jsRemainder (jsRemainder hash 360 + 360) 360
      in js ''hsl('' @ decimal (nat hue) @ js '', 45%, 65%)'')"

text \<open>
  \<open>name.replace(/P[^Q]*Q$/, "")\<close> with P = U+FF08 and Q = U+FF09.  The search tries every
  start from the left; at a P the class takes every code unit up to the next Q (or the end),
  and the match needs that Q to be the last code unit.  The first match runs to the end of
  the string, so replacing it leaves what is before it.
\<close>

definition annotationToEnd :: "jsstring \<Rightarrow> bool" where
  "annotationToEnd cs = (dropWhile (\<lambda>d. d \<noteq> parenClose) cs = [parenClose])"

fun stripAnnotation :: "jsstring \<Rightarrow> jsstring" where
  "stripAnnotation [] = []"
| "stripAnnotation (c # cs) =
     (if c = parenOpen \<and> annotationToEnd cs then [] else c # stripAnnotation cs)"

section \<open>Rendering scene blocks\<close>

text \<open>
  The rendering functions read \<open>charDescriptions[key]\<close> twice, for its truth value and for
  its text.  They take the lookup as \<open>descs\<close>: \<open>descs key\<close> is the text of the value when
  the value is truthy.  \<open>descriptionText\<close>, defined with the viewer's state, is that lookup
  for the object the viewer holds, with what the object inherits.
\<close>

definition avatarHtml :: "jsstring \<Rightarrow> error + jsstring" where
  \<open>avatarHtml name =
     (case encodeURIComponent name of
        Inl e \<Rightarrow> Inl e
      | Inr enc \<Rightarrow>
          (let imgUrl = js ''/chara_image/'' @ enc @ js ''.png''
           in Inr (js ''<div class="speech-avatar"><img src="'' @ esc imgUrl @
                   js ''" alt="" loading="lazy"></div>'')))\<close>

definition titleAttr :: "(jsstring \<rightharpoonup> jsstring) \<Rightarrow> jsstring \<Rightarrow> jsstring" where
  \<open>titleAttr descs key =
     (case descs key of
        Some d \<Rightarrow> js '' title="'' @ esc d @ js ''"''
      | None \<Rightarrow> [])\<close>

fun blockHtml :: "(jsstring \<rightharpoonup> jsstring) \<Rightarrow> block \<Rightarrow> error + jsstring" where
  \<open>blockHtml descs (Speech name txt) =
     (let baseName = stripAnnotation name;
          color = nameToColor baseName;
          title = titleAttr descs baseName
      in case avatarHtml baseName of
           Inl e \<Rightarrow> Inl e
         | Inr avatar \<Rightarrow>
             Inr (js ''<div class="line-speech">'' @
                  js ''<div class="speech-avatar-col"'' @ title @ js ''>'' @
                  avatar @
                  js ''<div class="speech-name" style="color:'' @ color @ js ''">'' @
                  esc baseName @ js ''</div>'' @
                  js ''</div>'' @
                  js ''<div class="speech-bubble">'' @ esc txt @ js ''</div>'' @
                  js ''</div>''))\<close>
| \<open>blockHtml descs (Separator txt) =
     Inr (js ''<div class="line-separator">'' @ esc txt @ js ''</div>'')\<close>
| \<open>blockHtml descs (Narration txt) =
     Inr (js ''<div class="line-narration">'' @ esc txt @ js ''</div>'')\<close>

fun renderLoop :: "(jsstring \<rightharpoonup> jsstring) \<Rightarrow> block list \<Rightarrow> jsstring \<Rightarrow> error + jsstring" where
  "renderLoop descs [] html = Inr html"
| "renderLoop descs (b # bs) html =
     (case blockHtml descs b of
        Inl e \<Rightarrow> Inl e
      | Inr h \<Rightarrow> renderLoop descs bs (html @ h))"

definition renderSceneBlocks :: "(jsstring \<rightharpoonup> jsstring) \<Rightarrow> block list \<Rightarrow> error + jsstring" where
  "renderSceneBlocks descs blocks = renderLoop descs blocks []"

section \<open>The viewer's state and its surroundings\<close>

text \<open>
  An element of the page.  The elements live in a store, \<open>heap\<close>, and are named by handles;
  \<open>scenesChildren\<close> is the list of children of the \<open>scenes\<close> container in document order.
\<close>

record element =
  elId :: jsstring
  className :: jsstring
  datasetScene :: "jsstring option"
  innerHTML :: jsstring

text \<open>What the viewer does to the outside, in the order it does it.\<close>

datatype effect =
    Fetch jsstring
  | SetTimeout nat
  | ConsoleError
  | ScrollToBottom
  | AddDisconnected
  | RemoveDisconnected

text \<open>
  The module's variables (\<open>lastHash\<close> starts as \<open>null\<close>), the part of the page the core
  writes, and the log of effects.  \<open>'s\<close> is the payload of the state endpoint, which only
  \<open>renderSidebar\<close> reads; \<open>sidebar\<close> is the payload the sidebar was last rendered from.
  \<open>sceneDivs\<close> and \<open>charDescriptions\<close> hold the own properties of the two objects.  What
  the objects inherit is in the last two fields: \<open>protoInnerHTML\<close> is the property
  \<open>innerHTML\<close> of \<open>Object.prototype\<close>, which does not exist until the code assigns it, and
  \<open>prototypeText\<close> is the text the engine gives for the value inherited under one of the
  names every object inherits (the text of a built-in function differs between engines).
\<close>

record 's viewer =
  lastHash :: "jsstring option"
  loadedScenes :: "jsstring set"
  sceneDivs :: "jsstring \<rightharpoonup> nat"
  charDescriptions :: "jsstring \<rightharpoonup> jsstring"
  userScrolledUp :: bool
  isTyping :: bool
  heap :: "nat \<Rightarrow> element"
  nextHandle :: nat
  scenesChildren :: "nat list"
  disconnected :: bool
  sidebar :: "'s option"
  effects :: "effect list"
  protoInnerHTML :: "jsstring option"
  prototypeText :: "jsstring \<Rightarrow> jsstring"

text \<open>The payloads of the typing and scene endpoints; a field that is absent or null is \<open>None\<close>.\<close>

record typingStatus =
  npc :: "jsstring option"
  scene :: "jsstring option"

record scenePayload =
  sceneName :: jsstring
  sceneContent :: jsstring

text \<open>
  What the server answers during one cycle: \<open>None\<close> is a \<open>fetchJSON\<close> that rejects (network
  failure, a status that is not ok, or a body that is not JSON).  The typing endpoint may
  answer \<open>null\<close>, the inner \<open>None\<close>.  Scene answers are given by URL.
\<close>

record 's network =
  hashResponse :: "jsstring option"
  stateResponse :: "'s option"
  scenesResponse :: "jsstring list option"
  typingResponse :: "typingStatus option option"
  sceneResponse :: "jsstring \<Rightarrow> scenePayload option"

text \<open>
  \<open>sceneDivs\<close> and \<open>charDescriptions\<close> are plain objects used as dictionaries, so \<open>obj[key]\<close>
  also finds what every object inherits from \<open>Object.prototype\<close>: the built-in functions
  and \<open>__proto__\<close>, which are objects and truthy, and \<open>innerHTML\<close> once the code has assigned
  it there, which is a string.  An own property hides an inherited one.
\<close>

definition objectPrototypeKeys :: "jsstring list" where
  "objectPrototypeKeys =
     map js [''constructor'', ''__defineGetter__'', ''__defineSetter__'', ''hasOwnProperty'',
             ''__lookupGetter__'', ''__lookupSetter__'', ''isPrototypeOf'',
             ''propertyIsEnumerable'', ''toString'', ''valueOf'', ''__proto__'',
             ''toLocaleString'']"

datatype 'a property = Own 'a | InheritedObject | InheritedString jsstring | Absent

definition getProperty :: "jsstring option \<Rightarrow> (jsstring \<rightharpoonup> 'a) \<Rightarrow> jsstring \<Rightarrow> 'a property" where
  "getProperty inner obj key =
     (case obj key of
        Some x \<Rightarrow> Own x
      | None \<Rightarrow>
          if key \<in> set objectPrototypeKeys then InheritedObject
          else if key = js ''innerHTML'' then
            (case inner of Some s \<Rightarrow> InheritedString s | None \<Rightarrow> Absent)
          else Absent)"

text \<open>
  \<open>charDescriptions[key]\<close> as the rendering functions use it: the text of the value when the
  value is truthy.  The empty string is falsy; a function or an object is truthy whatever
  its text.
\<close>

definition descriptionText :: "'s viewer \<Rightarrow> jsstring \<rightharpoonup> jsstring" where
  "descriptionText v key =
     (case getProperty (protoInnerHTML v) (charDescriptions v) key of
        Own d \<Rightarrow> if d \<noteq> [] then Some d else None
      | InheritedObject \<Rightarrow> Some (prototypeText v key)
      | InheritedString s \<Rightarrow> if s \<noteq> [] then Some s else None
      | Absent \<Rightarrow> None)"

definition logEffect :: "effect \<Rightarrow> 's viewer \<Rightarrow> 's viewer" where
  "logEffect e v = v\<lparr>effects := effects v @ [e]\<rparr>"

definition scrollToBottom :: "'s viewer \<Rightarrow> 's viewer" where
  "scrollToBottom v = (if \<not> userScrolledUp v then logEffect ScrollToBottom v else v)"

text \<open>\<open>document.createElement("div")\<close>: a fresh handle for an element outside the page.\<close>

definition createElement :: "'s viewer \<Rightarrow> nat \<times> 's viewer" where
  "createElement v =
     (nextHandle v,
      v\<lparr>heap := (heap v)(nextHandle v :=
             \<lparr>elId = [], className = [], datasetScene = None, innerHTML = []\<rparr>),
        nextHandle := Suc (nextHandle v)\<rparr>)"

text \<open>\<open>appendChild\<close> moves a node that is already a child to the end; \<open>remove\<close> detaches it.\<close>

definition appendChild :: "nat \<Rightarrow> 's viewer \<Rightarrow> 's viewer" where
  "appendChild h v = v\<lparr>scenesChildren := removeAll h (scenesChildren v) @ [h]\<rparr>"

definition removeChild :: "nat \<Rightarrow> 's viewer \<Rightarrow> 's viewer" where
  "removeChild h v = v\<lparr>scenesChildren := removeAll h (scenesChildren v)\<rparr>"

definition setInnerHTML :: "nat \<Rightarrow> jsstring \<Rightarrow> 's viewer \<Rightarrow> 's viewer" where
  "setInnerHTML h html v = v\<lparr>heap := (heap v)(h := (heap v h)\<lparr>innerHTML := html\<rparr>)\<rparr>"

text \<open>
  \<open>document.getElementById("typing-indicator")\<close>, for a document in which the element with
  this id, if any, is the one \<open>renderTypingIndicator\<close> made: a child of the \<open>scenes\<close>
  container.  Markup written into an \<open>innerHTML\<close> can define another element with the id only
  through a double quote in the text of a title attribute; the properties that depend on
  this search are stated under \<open>titlesQuoteFree\<close> and \<open>noProtoScene\<close>, which exclude that.
\<close>

definition getTypingIndicator :: "'s viewer \<Rightarrow> nat option" where
  "getTypingIndicator v =
     find (\<lambda>h. elId (heap v h) = js ''typing-indicator'') (scenesChildren v)"

section \<open>Typing indicator\<close>

definition hasNpc :: "typingStatus option \<Rightarrow> bool" where
  "hasNpc typingData =
     (case typingData of
        None \<Rightarrow> False
      | Some t \<Rightarrow> (case npc t of None \<Rightarrow> False | Some n \<Rightarrow> n \<noteq> []))"

text \<open>
  The result of a step that can throw is the error, if any, with the state reached: what was
  written before the throw stays written.
\<close>

definition renderTypingIndicator ::
  "typingStatus option \<Rightarrow> 's viewer \<Rightarrow> error option \<times> 's viewer" where
  \<open>renderTypingIndicator typingData v =
     (let existing = getTypingIndicator v in
      if \<not> hasNpc typingData then
        (case existing of
           Some h \<Rightarrow> (None, removeChild h v)
         | None \<Rightarrow> (None, v))
      else
        (let (h, v1) =
               (case existing of
                  Some h \<Rightarrow> (h, v)
                | None \<Rightarrow>
                    (let (h, v0) = createElement v
                     in (h, v0\<lparr>heap := (heap v0)(h := (heap v0 h)\<lparr>elId := js ''typing-indicator''\<rparr>)\<rparr>)));
             v2 = appendChild h v1;
             v3 = v2\<lparr>heap := (heap v2)(h := (heap v2 h)\<lparr>className := js ''typing-indicator''\<rparr>)\<rparr>;
             baseName = stripAnnotation (the (npc (the typingData)));
             color = nameToColor baseName
         in case encodeURIComponent baseName of
              Inl e \<Rightarrow> (Some e, v3)
            | Inr enc \<Rightarrow>
                (let imgUrl = js ''/chara_image/'' @ enc @ js ''.png'';
                     v4 = setInnerHTML h
                            (js ''<div class="speech-avatar-col">'' @
                             js ''<div class="speech-avatar"><img src="'' @ esc imgUrl @
                             js ''" alt="" loading="lazy"></div>'' @
                             js ''<div class="speech-name" style="color:'' @ color @ js ''">'' @
                             esc baseName @ js ''</div>'' @
                             js ''</div>'' @
                             js ''<div class="typing-dots"><span></span><span></span><span></span></div>'')
                            v3
                 in (None, scrollToBottom v4))))\<close>

section \<open>Scene loading\<close>

text \<open>The first lines of \<open>loadScenes\<close>: the names to fetch.\<close>

definition toFetch :: "jsstring set \<Rightarrow> jsstring list \<Rightarrow> jsstring option \<Rightarrow> jsstring list" where
  "toFetch loaded sceneList activeScene =
     (let newScenes = filter (\<lambda>name. name \<notin> loaded) sceneList;
          toRefresh = (case activeScene of
                         None \<Rightarrow> []
                       | Some a \<Rightarrow> if a \<noteq> [] \<and> a \<in> loaded then [a] else [])
      in foldl (\<lambda>acc n. if n \<notin> set acc then acc @ [n] else acc) newScenes toRefresh)"

definition sceneUrl :: "jsstring \<Rightarrow> jsstring" where
  "sceneUrl enc = js ''/api/scene/'' @ enc"

text \<open>
  \<open>toFetch.map\<close>: one request per name, in order.  A name that cannot be encoded throws out of
  \<open>loadScenes\<close>, after the requests before it were sent.
\<close>

fun issueFetches ::
  "'s network \<Rightarrow> jsstring list \<Rightarrow> 's viewer \<Rightarrow> (error + scenePayload option list) \<times> 's viewer" where
  "issueFetches net [] v = (Inr [], v)"
| "issueFetches net (name # names) v =
     (case encodeURIComponent name of
        Inl e \<Rightarrow> (Inl e, v)
      | Inr enc \<Rightarrow>
          (case issueFetches net names (logEffect (Fetch (sceneUrl enc)) v) of
             (Inl e, v') \<Rightarrow> (Inl e, v')
           | (Inr rs, v') \<Rightarrow> (Inr (sceneResponse net (sceneUrl enc) # rs), v')))"

text \<open>The \<open>else\<close> branch of the body of \<open>results.forEach\<close>: a new element for the scene.\<close>

definition appendSceneDiv :: "jsstring \<Rightarrow> jsstring \<Rightarrow> 's viewer \<Rightarrow> 's viewer" where
  "appendSceneDiv name html v =
     (let (h, v0) = createElement v;
          v0' = v0\<lparr>heap := (heap v0)(h := (heap v0 h)
                   \<lparr>className := js ''scene-block'',
                    datasetScene := Some name,
                    innerHTML := html\<rparr>)\<rparr>;
          v0'' = appendChild h v0'
      in v0''\<lparr>sceneDivs := (sceneDivs v0'')(name \<mapsto> h)\<rparr>)"

definition recordLoaded :: "jsstring \<Rightarrow> 's viewer \<Rightarrow> 's viewer" where
  "recordLoaded name v = v\<lparr>loadedScenes := insert name (loadedScenes v)\<rparr>"

text \<open>
  The body of \<open>results.forEach\<close>.  Where \<open>sceneDivs[scene.name]\<close> finds an inherited object
  instead of an element, the assignment to \<open>innerHTML\<close> lands on that object and the page is
  not changed; for the name \<open>__proto__\<close> that object is \<open>Object.prototype\<close>, which from then
  on gives every object the property \<open>innerHTML\<close>.  Where it finds that inherited string,
  the string is truthy unless empty, and the assignment to a property of a string throws
  \<open>TypeError\<close> in strict code.
\<close>

definition applyScene :: "scenePayload \<Rightarrow> 's viewer \<Rightarrow> error option \<times> 's viewer" where
  "applyScene sc v =
     (let blocks = parseScene (sceneContent sc) in
      case renderSceneBlocks (descriptionText v) blocks of
        Inl e \<Rightarrow> (Some e, v)
      | Inr html \<Rightarrow>
          (case getProperty (protoInnerHTML v) (sceneDivs v) (sceneName sc) of
             Own h \<Rightarrow> (None, recordLoaded (sceneName sc) (setInnerHTML h html v))
           | InheritedObject \<Rightarrow>
               (None, recordLoaded (sceneName sc)
                        (if sceneName sc = js ''__proto__'' then v\<lparr>protoInnerHTML := Some html\<rparr>
                         else v))
           | InheritedString s \<Rightarrow>
               if s \<noteq> [] then (Some TypeError, v)
               else (None, recordLoaded (sceneName sc) (appendSceneDiv (sceneName sc) html v))
           | Absent \<Rightarrow>
               (None, recordLoaded (sceneName sc) (appendSceneDiv (sceneName sc) html v))))"

fun applyScenes :: "scenePayload list \<Rightarrow> 's viewer \<Rightarrow> error option \<times> 's viewer" where
  "applyScenes [] v = (None, v)"
| "applyScenes (sc # scs) v =
     (case applyScene sc v of
        (Some e, v') \<Rightarrow> (Some e, v')
      | (None, v') \<Rightarrow> applyScenes scs v')"

text \<open>
  \<open>loadScenes\<close>.  \<open>Promise.all\<close> rejects when one request does; the \<open>catch\<close> logs that, or
  an error thrown while applying, and the promise returned is fulfilled.
\<close>

definition loadScenes ::
  "'s network \<Rightarrow> jsstring list \<Rightarrow> jsstring option \<Rightarrow> 's viewer \<Rightarrow> error option \<times> 's viewer" where
  "loadScenes net sceneList activeScene v =
     (let names = toFetch (loadedScenes v) sceneList activeScene in
      if names = [] then (None, v)
      else
        (case issueFetches net names v of
           (Inl e, v1) \<Rightarrow> (Some e, v1)
         | (Inr responses, v1) \<Rightarrow>
             (case those responses of
                None \<Rightarrow> (None, logEffect ConsoleError v1)
              | Some results \<Rightarrow>
                  (case applyScenes results v1 of
                     (Some e, v2) \<Rightarrow> (None, logEffect ConsoleError v2)
                   | (None, v2) \<Rightarrow> (None, scrollToBottom v2)))))"

section \<open>Refresh and polling\<close>

text \<open>
  One cycle is one step of the model.  The handlers of a poll run to their end before the
  timer set by the last of them fires, so cycles started by \<open>poll\<close> do not overlap; what the
  server answers during the cycle is a \<open>network\<close>.  Requests of one \<open>Promise.all\<close> are logged
  in the order they are sent; the order in which their answers arrive does not change the
  outcome.  \<open>init\<close>, which loads the character descriptions, calls \<open>update\<close> once and sets
  the first timer, is outside the model, and so is the scroll listener that writes
  \<open>userScrolledUp\<close>.
\<close>

text \<open>
  \<open>renderSidebar\<close> overwrites the sidebar from the state payload and the descriptions.  The
  payload has the shape the interface gives it, so that \<open>renderSidebar\<close> does not throw.
\<close>

definition renderSidebar :: "'s \<Rightarrow> 's viewer \<Rightarrow> 's viewer" where
  "renderSidebar st v = v\<lparr>sidebar := Some st\<rparr>"

definition POLL_INTERVAL_NORMAL :: nat where "POLL_INTERVAL_NORMAL = 3000"
definition POLL_INTERVAL_TYPING :: nat where "POLL_INTERVAL_TYPING = 1000"

text \<open>
  \<open>update\<close>: three requests at once; the typing request has its own \<open>catch\<close> that turns a
  failure into \<open>null\<close>, the other two reject the whole \<open>Promise.all\<close>.
\<close>

definition update :: "'s network \<Rightarrow> 's viewer \<Rightarrow> error option \<times> 's viewer" where
  "update net v =
     (let v1 = logEffect (Fetch (js ''/api/typing''))
                 (logEffect (Fetch (js ''/api/scenes''))
                   (logEffect (Fetch (js ''/api/state'')) v))
      in case (stateResponse net, scenesResponse net) of
           (Some st, Some sceneList) \<Rightarrow>
             (let typingData = (case typingResponse net of None \<Rightarrow> None | Some t \<Rightarrow> t);
                  v2 = v1\<lparr>isTyping := hasNpc typingData\<rparr>;
                  activeScene = (if isTyping v2 then scene (the typingData) else None);
                  v3 = renderSidebar st v2
              in case loadScenes net sceneList activeScene v3 of
                   (Some e, v4) \<Rightarrow> (Some e, v4)
                 | (None, v4) \<Rightarrow> renderTypingIndicator typingData v4)
         | _ \<Rightarrow> (Some FetchError, v1))"

text \<open>
  \<open>poll\<close>: the \<open>then\<close> handler, the \<open>catch\<close> handler (which also receives a rejection of the
  promise \<open>update\<close> returned) and the \<open>finally\<close> handler.
\<close>

definition poll :: "'s network \<Rightarrow> 's viewer \<Rightarrow> 's viewer" where
  "poll net v =
     (let v1 = logEffect (Fetch (js ''/api/hash'')) v;
          v2 = (case hashResponse net of
                  None \<Rightarrow> logEffect AddDisconnected (v1\<lparr>disconnected := True\<rparr>)
                | Some h \<Rightarrow>
                    (let v1' = logEffect RemoveDisconnected (v1\<lparr>disconnected := False\<rparr>) in
                     if Some h \<noteq> lastHash v1' then
                       (case update net (v1'\<lparr>lastHash := Some h\<rparr>) of
                          (None, v') \<Rightarrow> v'
                        | (Some e, v') \<Rightarrow> logEffect AddDisconnected (v'\<lparr>disconnected := True\<rparr>))
                     else v1'))
      in logEffect
           (SetTimeout (if isTyping v2 then POLL_INTERVAL_TYPING else POLL_INTERVAL_NORMAL)) v2)"

section \<open>Notions used to state the properties\<close>

text \<open>
  The module's initial values, over an empty \<open>scenes\<close> container, in an engine that prints
  built-in functions the way V8 does.  The theorems are about every state, whatever its
  \<open>prototypeText\<close>; \<open>initialViewer\<close> is where the examples start.
\<close>

definition engineText :: "jsstring \<Rightarrow> jsstring" where
  "engineText key =
     (if key = js ''__proto__'' then js ''[object Object]''
      else js ''function '' @ (if key = js ''constructor'' then js ''Object'' else key) @
           js ''() { [native code] }'')"

definition initialViewer :: "(jsstring \<rightharpoonup> jsstring) \<Rightarrow> 's viewer" where
  "initialViewer descs =
     \<lparr>lastHash = None, loadedScenes = {}, sceneDivs = Map.empty, charDescriptions = descs,
      userScrolledUp = False, isTyping = False,
      heap = (\<lambda>h. \<lparr>elId = [], className = [], datasetScene = None, innerHTML = []\<rparr>),
      nextHandle = 0, scenesChildren = [], disconnected = False, sidebar = None,
      effects = [], protoInnerHTML = None, prototypeText = engineText\<rparr>"


definition encodable :: "jsstring \<Rightarrow> bool" where
  "encodable name = (\<not> isl (encodeURIComponent name))"

definition sceneRequest :: "jsstring \<Rightarrow> effect" where
  "sceneRequest name = Fetch (sceneUrl (projr (encodeURIComponent name)))"

text \<open>
  The conditions under which no markup the core writes can define an element with the id of
  the typing indicator.  Text is put into markup through \<open>esc\<close>, which leaves the double
  quote; the one place where a double quote matters is the title attribute, whose text is a
  description.  So no description text may hold a double quote, and no scene of the cycle
  may make the rendered markup of a scene such a text, which a scene named \<open>__proto__\<close> does.
\<close>

definition sameObjects :: "'s viewer \<Rightarrow> 's viewer \<Rightarrow> bool" where
  "sameObjects v v' =
     (charDescriptions v' = charDescriptions v \<and> prototypeText v' = prototypeText v \<and>
      protoInnerHTML v' = protoInnerHTML v)"

definition titlesQuoteFree :: "'s viewer \<Rightarrow> bool" where
  "titlesQuoteFree v = (\<forall>key d. descriptionText v key = Some d \<longrightarrow> 0x22 \<notin> set d)"

definition noProtoScene :: "'s network \<Rightarrow> bool" where
  "noProtoScene net =
     (\<forall>u p. sceneResponse net u = Some p \<longrightarrow> sceneName p \<noteq> js ''__proto__'')"

text \<open>Joining lines with line feeds, the inverse of \<open>split_nl\<close>.\<close>

fun join_nl :: "jsstring list \<Rightarrow> jsstring" where
  "join_nl [] = []"
| "join_nl [l] = l"
| "join_nl (l # ls) = l @ 0x0A # join_nl ls"

text \<open>A non-empty run of code units none of which is white space.\<close>

definition nonSpaceRun :: "jsstring \<Rightarrow> bool" where
  "nonSpaceRun run = (run \<noteq> [] \<and> list_all (\<lambda>c. \<not> isWhiteSpace c) run)"

text \<open>
  A line that is a non-space run, the opening marker and a non-empty remainder without a
  line terminator.
\<close>

definition speechShaped :: "jsstring \<Rightarrow> bool" where
  "speechShaped line =
     (\<exists>run rest. line = run @ openMark # rest \<and> nonSpaceRun run \<and>
        rest \<noteq> [] \<and> list_all (\<lambda>c. \<not> isLineTerminator c) rest)"


text \<open>The requests for a list of scene names, up to the first name that cannot be encoded.\<close>

fun fetchEffects :: "jsstring list \<Rightarrow> effect list" where
  "fetchEffects [] = []"
| "fetchEffects (name # names) =
     (case encodeURIComponent name of
        Inl e \<Rightarrow> []
      | Inr enc \<Rightarrow> Fetch (sceneUrl enc) # fetchEffects names)"

fun isTimer :: "effect \<Rightarrow> bool" where
  "isTimer (SetTimeout d) = True"
| "isTimer e = False"

text \<open>The three requests of a refresh, the delay of the next poll, and the state \<open>poll\<close>
  hands to \<open>update\<close> after a fingerprint that differs from the last one seen.\<close>

definition refreshRequests :: "effect list" where
  "refreshRequests =
     [Fetch (js ''/api/state''), Fetch (js ''/api/scenes''), Fetch (js ''/api/typing'')]"

definition nextDelay :: "'s viewer \<Rightarrow> nat" where
  "nextDelay v = (if isTyping v then POLL_INTERVAL_TYPING else POLL_INTERVAL_NORMAL)"

definition afterHash :: "jsstring \<Rightarrow> 's viewer \<Rightarrow> 's viewer" where
  "afterHash h v =
     v\<lparr>disconnected := False, lastHash := Some h,
       effects := effects v @ [Fetch (js ''/api/hash''), RemoveDisconnected]\<rparr>"

text \<open>
  A step that leaves the module's flags, the sidebar and the connection indicator alone and
  logs only requests, console errors and scrolling.
\<close>

fun pageEffect :: "effect \<Rightarrow> bool" where
  "pageEffect (Fetch u) = True"
| "pageEffect ConsoleError = True"
| "pageEffect ScrollToBottom = True"
| "pageEffect e = False"

definition pageStep :: "'s viewer \<Rightarrow> 's viewer \<Rightarrow> bool" where
  "pageStep v v' =
     (lastHash v' = lastHash v \<and> isTyping v' = isTyping v \<and> disconnected v' = disconnected v \<and>
      sidebar v' = sidebar v \<and> charDescriptions v' = charDescriptions v \<and>
      userScrolledUp v' = userScrolledUp v \<and>
      (\<exists>es. effects v' = effects v @ es \<and> list_all pageEffect es))"

text \<open>
  The shape of the page the core maintains: the children of the container are distinct
  handles that have been created, every scene handle is one of them, belongs to one scene
  name only and is not the typing indicator, and at most one child is the typing indicator.
\<close>

definition isIndicator :: "'s viewer \<Rightarrow> nat \<Rightarrow> bool" where
  "isIndicator v h = (elId (heap v h) = js ''typing-indicator'')"

definition wellFormed :: "'s viewer \<Rightarrow> bool" where
  "wellFormed v =
     (distinct (scenesChildren v) \<and>
      (\<forall>h\<in>set (scenesChildren v). h < nextHandle v) \<and>
      (\<forall>h\<in>ran (sceneDivs v). h \<in> set (scenesChildren v) \<and> \<not> isIndicator v h) \<and>
      inj_on (sceneDivs v) (dom (sceneDivs v)) \<and>
      length (filter (isIndicator v) (scenesChildren v)) \<le> 1)"

lemma trim_Nil_iff: "(trim s = []) = list_all isWhiteSpace s"
proof -
  have "(trim s = []) = (\<forall>c\<in>set (dropWhile isWhiteSpace s). isWhiteSpace c)"
    by (simp add: trim_def dropWhile_eq_Nil_conv)
  also have "\<dots> = list_all isWhiteSpace s"
  proof
    assume h: "\<forall>c\<in>set (dropWhile isWhiteSpace s). isWhiteSpace c"
    have "dropWhile isWhiteSpace s = []"
    proof (rule ccontr)
      assume n: "dropWhile isWhiteSpace s \<noteq> []"
      then have "\<not> isWhiteSpace (hd (dropWhile isWhiteSpace s))" by (rule hd_dropWhile)
      moreover have "hd (dropWhile isWhiteSpace s) \<in> set (dropWhile isWhiteSpace s)"
        using n by simp
      ultimately show False using h by blast
    qed
    then show "list_all isWhiteSpace s"
      by (simp add: dropWhile_eq_Nil_conv list_all_iff)
  next
    assume "list_all isWhiteSpace s"
    then show "\<forall>c\<in>set (dropWhile isWhiteSpace s). isWhiteSpace c"
      by (auto simp: list_all_iff dest: set_dropWhileD)
  qed
  finally show ?thesis .
qed

lemma split_nl_not_Nil: "split_nl s \<noteq> []"
  by (induction s) (auto split: list.splits)

lemma split_nl_no_lf: "l \<in> set (split_nl s) \<Longrightarrow> 0x0A \<notin> set l"
  by (induction s arbitrary: l) (auto split: list.splits if_splits)

lemma join_nl_Cons_Cons: "join_nl ((a # l) # ls) = a # join_nl (l # ls)"
  by (cases ls) auto

lemma join_split_nl: "join_nl (split_nl s) = s"
  by (induction s) (auto split: list.splits simp: split_nl_not_Nil join_nl_Cons_Cons)

lemma parseLoop_acc: "parseLoop ls acc = acc @ map classifyLine (filter (\<lambda>l. \<not> list_all isWhiteSpace l) ls)"
  by (induction ls arbitrary: acc) (auto simp: parseLine_def trim_Nil_iff)

lemma openMark_not_space: "\<not> isWhiteSpace openMark"
  by (simp add: isWhiteSpace_def isLineTerminator_def openMark_def)

lemma lazyRun_first:
  "list_all (\<lambda>c. \<not> isWhiteSpace c) mid \<Longrightarrow> openMark \<notin> set mid \<Longrightarrow> dotPlusToEnd r \<Longrightarrow>
   lazyRun run (mid @ openMark # r) = Some (run @ mid, r)"
  by (induction mid arbitrary: run) auto

lemma lazyRun_some:
  "list_all (\<lambda>c. \<not> isWhiteSpace c) mid \<Longrightarrow> dotPlusToEnd r \<Longrightarrow>
   lazyRun run (mid @ openMark # r) \<noteq> None"
  by (induction mid arbitrary: run) auto

lemma lazyRun_SomeD:
  "lazyRun run s = Some (n, r) \<Longrightarrow>
   \<exists>mid. n = run @ mid \<and> s = mid @ openMark # r \<and>
     list_all (\<lambda>c. \<not> isWhiteSpace c) mid \<and> dotPlusToEnd r"
proof (induction s arbitrary: run)
  case Nil
  then show ?case by simp
next
  case (Cons c cs)
  show ?case
  proof (cases "c = openMark \<and> dotPlusToEnd cs")
    case True
    with Cons.prems show ?thesis by auto
  next
    case False
    with Cons.prems have ns: "\<not> isWhiteSpace c" and rec: "lazyRun (run @ [c]) cs = Some (n, r)"
      by (auto split: if_splits)
    from Cons.IH [OF rec] obtain mid where
      "n = (run @ [c]) @ mid" "cs = mid @ openMark # r"
      "list_all (\<lambda>c. \<not> isWhiteSpace c) mid" "dotPlusToEnd r" by blast
    with ns show ?thesis by (intro exI [of _ "c # mid"]) simp
  qed
qed

lemma lazyRun_end_None:
  "list_all (\<lambda>c. \<not> isWhiteSpace c) mid \<Longrightarrow> openMark \<notin> set mid \<Longrightarrow>
   lazyRun run (mid @ [openMark]) = None"
  by (induction mid arbitrary: run) (auto simp: dotPlusToEnd_def openMark_not_space)

lemma speechMatch_first:
  assumes "nonSpaceRun run" "openMark \<notin> set (tl run)" "rest \<noteq> []"
    "list_all (\<lambda>c. \<not> isLineTerminator c) rest"
  shows "speechMatch (run @ openMark # rest) = Some (run, rest)"
proof -
  from assms(1) obtain c mid where run: "run = c # mid"
    by (cases run) (auto simp: nonSpaceRun_def)
  with assms show ?thesis
    by (simp add: speechMatch_def nonSpaceRun_def lazyRun_first dotPlusToEnd_def)
qed

lemma speechMatch_SomeD:
  assumes "speechMatch line = Some (n, r)"
  shows "line = n @ openMark # r \<and> nonSpaceRun n \<and> r \<noteq> [] \<and>
         list_all (\<lambda>c. \<not> isLineTerminator c) r"
proof -
  from assms obtain c cs where line: "line = c # cs" and ns: "\<not> isWhiteSpace c"
    and lr: "lazyRun [c] cs = Some (n, r)"
    by (cases line) (auto simp: speechMatch_def split: if_splits)
  from lazyRun_SomeD [OF lr] obtain mid where
    "n = [c] @ mid" "cs = mid @ openMark # r"
    "list_all (\<lambda>c. \<not> isWhiteSpace c) mid" "dotPlusToEnd r" by blast
  with line ns show ?thesis by (simp add: nonSpaceRun_def dotPlusToEnd_def)
qed

lemma speechMatch_iff_shaped: "(speechMatch line \<noteq> None) = speechShaped line"
proof
  assume "speechMatch line \<noteq> None"
  then obtain n r where "speechMatch line = Some (n, r)" by auto
  from speechMatch_SomeD [OF this] show "speechShaped line"
    unfolding speechShaped_def by blast
next
  assume "speechShaped line"
  then obtain run rest where line: "line = run @ openMark # rest" and run: "nonSpaceRun run"
    and rest: "rest \<noteq> []" "list_all (\<lambda>c. \<not> isLineTerminator c) rest"
    unfolding speechShaped_def by blast
  from run obtain c mid where rc: "run = c # mid" by (cases run) (auto simp: nonSpaceRun_def)
  from run rc have "\<not> isWhiteSpace c" "list_all (\<lambda>c. \<not> isWhiteSpace c) mid"
    by (auto simp: nonSpaceRun_def)
  moreover from rest have "dotPlusToEnd rest" by (simp add: dotPlusToEnd_def)
  ultimately show "speechMatch line \<noteq> None"
    using lazyRun_some [of mid rest "[c]"] by (simp add: speechMatch_def line rc)
qed

lemma startsWith_two: "startsWith s [a, b] = (take 2 s = [a, b])"
  by (simp add: startsWith_def numeral_2_eq_2)

lemma startsWith_dash_open:
  "run \<noteq> [] \<Longrightarrow> startsWith (run @ [openMark]) [dashMark, dashMark] = startsWith run [dashMark, dashMark]"
proof -
  assume "run \<noteq> []"
  moreover have "openMark \<noteq> dashMark" by (simp add: openMark_def dashMark_def)
  ultimately show ?thesis
    by (cases run; cases "tl run") (auto simp: startsWith_def)
qed

lemma strip_close: "r \<noteq> [] \<Longrightarrow>
  (if endsWith r [closeMark] then slice_0_m1 r else r) = (if last r = closeMark then butlast r else r)"
  by (cases r rule: rev_cases) (auto simp: endsWith_def slice_0_m1_def)

lemma nonSpaceRun_not_blank: "nonSpaceRun run \<Longrightarrow> \<not> list_all isWhiteSpace (run @ s)"
  by (cases run) (auto simp: nonSpaceRun_def)

text \<open>
  C3 (as amended).  A line made of a non-space run that has no opening marker after its first
  code unit, the opening marker, and a non-empty remainder without a line terminator (CR,
  U+2028, U+2029) is a Speech: the speaker is the run, the text is the remainder without
  one closing marker at its end, if there is one.  A line that is not blank and has no
  such shape at all is a Separator carrying the whole line when it begins with two U+2015,
  and a Narration carrying the whole line otherwise.
\<close>

theorem parseLine_first_match:
  "(nonSpaceRun run \<and> openMark \<notin> set (tl run) \<and> rest \<noteq> [] \<and>
      list_all (\<lambda>c. \<not> isLineTerminator c) rest \<longrightarrow>
    parseLine (run @ openMark # rest) =
      Some (Speech run (if last rest = closeMark then butlast rest else rest))) \<and>
   (\<not> list_all isWhiteSpace line \<and> \<not> speechShaped line \<longrightarrow>
    parseLine line =
      Some (if take 2 line = [dashMark, dashMark] then Separator line else Narration line))"
proof (intro conjI impI)
  assume h: "nonSpaceRun run \<and> openMark \<notin> set (tl run) \<and> rest \<noteq> [] \<and>
      list_all (\<lambda>c. \<not> isLineTerminator c) rest"
  then have "speechMatch (run @ openMark # rest) = Some (run, rest)"
    by (simp add: speechMatch_first)
  moreover from h have "\<not> list_all isWhiteSpace (run @ openMark # rest)"
    by (simp only: nonSpaceRun_not_blank not_False_eq_True)
  ultimately show "parseLine (run @ openMark # rest) =
      Some (Speech run (if last rest = closeMark then butlast rest else rest))"
    using h strip_close [of rest] by (simp add: parseLine_def classifyLine_def trim_Nil_iff)
next
  assume h: "\<not> list_all isWhiteSpace line \<and> \<not> speechShaped line"
  then have "speechMatch line = None" using speechMatch_iff_shaped [of line] by blast
  with h show "parseLine line =
      Some (if take 2 line = [dashMark, dashMark] then Separator line else Narration line)"
    by (simp add: parseLine_def classifyLine_def trim_Nil_iff startsWith_two)
qed

text \<open>
  C10 (as amended).  A line made of a non-space run that has no opening marker after its
  first code unit, followed by the opening marker and nothing else, is never a Speech: it
  is a Narration carrying the whole line, marker included, unless the run begins with two
  U+2015, in which case it is a Separator carrying the whole line.
\<close>

theorem parseLine_open_at_end:
  "nonSpaceRun run \<Longrightarrow> openMark \<notin> set (tl run) \<Longrightarrow>
   parseLine (run @ [openMark]) =
     Some (if take 2 run = [dashMark, dashMark] then Separator (run @ [openMark])
           else Narration (run @ [openMark]))"
proof -
  assume run: "nonSpaceRun run" and first: "openMark \<notin> set (tl run)"
  from run obtain c mid where rc: "run = c # mid" by (cases run) (auto simp: nonSpaceRun_def)
  with run first have "speechMatch (run @ [openMark]) = None"
    by (simp add: speechMatch_def nonSpaceRun_def lazyRun_end_None)
  moreover from run have "\<not> list_all isWhiteSpace (run @ [openMark])"
    by (rule nonSpaceRun_not_blank)
  moreover have "startsWith (run @ [openMark]) [dashMark, dashMark] \<longleftrightarrow>
      take 2 run = [dashMark, dashMark]"
    using rc startsWith_dash_open [of run] by (simp only: startsWith_two list.distinct not_False_eq_True)
  ultimately show ?thesis
    by (simp add: parseLine_def classifyLine_def trim_Nil_iff)
qed

lemma parseScene_filter:
  "parseScene content = map classifyLine (filter (\<lambda>l. \<not> list_all isWhiteSpace l) (split_nl content))"
  by (simp add: parseScene_def parseLoop_acc)

text \<open>
  C2 (as amended).  \<open>parseScene\<close> yields one block per line that is not blank (a line is
  blank when it is empty or all white space), in the order of the lines; the lines are the
  pieces of the content between line feeds; the empty string yields no block; and equal
  contents give equal block sequences.  The source function reads its argument only and has
  no statement that throws, which is why \<open>parseScene\<close> is a total function of the content
  here and the last part holds by the translation.
\<close>

theorem parseScene_one_block_per_line:
  "parseScene content =
     map classifyLine (filter (\<lambda>l. \<not> list_all isWhiteSpace l) (split_nl content)) \<and>
   length (parseScene content) =
     length (filter (\<lambda>l. \<not> list_all isWhiteSpace l) (split_nl content)) \<and>
   join_nl (split_nl content) = content \<and>
   (\<forall>l\<in>set (split_nl content). 0x0A \<notin> set l) \<and>
   parseScene [] = [] \<and>
   (c1 = c2 \<longrightarrow> parseScene c1 = parseScene c2)"
proof (intro conjI impI ballI)
  show blocks: "parseScene content =
     map classifyLine (filter (\<lambda>l. \<not> list_all isWhiteSpace l) (split_nl content))"
    by (rule parseScene_filter)
  show "length (parseScene content) =
     length (filter (\<lambda>l. \<not> list_all isWhiteSpace l) (split_nl content))"
    unfolding blocks by (rule length_map)
  show "join_nl (split_nl content) = content"
    by (rule join_split_nl)
  show "parseScene [] = []"
    by (simp add: parseScene_filter)
next
  fix l
  assume "l \<in> set (split_nl content)"
  then show "0x0A \<notin> set l" by (rule split_nl_no_lf)
next
  assume "c1 = c2"
  then show "parseScene c1 = parseScene c2" by (rule arg_cong)
qed

lemmas parse_eval =
  js_def openMark_def closeMark_def dashMark_def isWhiteSpace_def isLineTerminator_def
  classifyLine_def speechMatch_def dotPlusToEnd_def startsWith_def endsWith_def slice_0_m1_def
  parseLine_def trim_def nonSpaceRun_def

text \<open>
  A line that holds one space is not empty and yields no block: three non-empty lines, two
  blocks.
\<close>

theorem parseScene_non_empty_line_counterexample:
  "split_nl (js ''a'' @ [0x0A, 0x20, 0x0A] @ js ''b'') = [js ''a'', [0x20], js ''b''] \<and>
   length (filter (\<lambda>l. l \<noteq> []) (split_nl (js ''a'' @ [0x0A, 0x20, 0x0A] @ js ''b''))) = 3 \<and>
   parseScene (js ''a'' @ [0x0A, 0x20, 0x0A] @ js ''b'') = [Narration (js ''a''), Narration (js ''b'')] \<and>
   length (parseScene (js ''a'' @ [0x0A, 0x20, 0x0A] @ js ''b'')) = 2"
  by (simp add: parseScene_def parse_eval)

text \<open>A content of four lines, two of them blank.\<close>

theorem parseScene_one_block_per_line_witness:
  "parseScene (js ''Al'' @ [openMark] @ js ''Hi'' @ [closeMark, 0x0A, 0x0A, 0x20, 0x0A] @ js ''End'') =
     [Speech (js ''Al'') (js ''Hi''), Narration (js ''End'')] \<and>
   length (parseScene (js ''Al'' @ [openMark] @ js ''Hi'' @ [closeMark, 0x0A, 0x0A, 0x20, 0x0A] @ js ''End'')) = 2 \<and>
   split_nl (js ''Al'' @ [openMark] @ js ''Hi'' @ [closeMark, 0x0A, 0x0A, 0x20, 0x0A] @ js ''End'') =
     [js ''Al'' @ [openMark] @ js ''Hi'' @ [closeMark], [], [0x20], js ''End'']"
  using parseScene_one_block_per_line
    [of "js ''Al'' @ [openMark] @ js ''Hi'' @ [closeMark, 0x0A, 0x0A, 0x20, 0x0A] @ js ''End''"
        "[]" "[]"]
  by (simp add: parse_eval)

text \<open>
  A carriage return in the remainder makes the line a Narration, and with two opening
  markers the speaker is the run before the first one.
\<close>

theorem parseLine_as_stated_counterexample:
  "nonSpaceRun (js ''a'') \<and> js ''b'' @ [0x0D] @ js ''c'' \<noteq> [] \<and>
   parseLine (js ''a'' @ [openMark] @ js ''b'' @ [0x0D] @ js ''c'') =
     Some (Narration (js ''a'' @ [openMark] @ js ''b'' @ [0x0D] @ js ''c'')) \<and>
   nonSpaceRun (js ''a'' @ [openMark] @ js ''b'') \<and>
   parseLine ((js ''a'' @ [openMark] @ js ''b'') @ [openMark] @ js ''c'') =
     Some (Speech (js ''a'') (js ''b'' @ [openMark] @ js ''c''))"
  by (simp add: parse_eval)

text \<open>The three rules on the lines of the specification's examples.\<close>

theorem parseLine_first_match_witness:
  "parseLine (js ''Al'' @ openMark # js ''Hi'' @ [closeMark]) = Some (Speech (js ''Al'') (js ''Hi'')) \<and>
   parseLine (js ''Al'' @ openMark # js ''Hi'') = Some (Speech (js ''Al'') (js ''Hi'')) \<and>
   parseLine ([dashMark, dashMark] @ js ''N'') = Some (Separator ([dashMark, dashMark] @ js ''N'')) \<and>
   parseLine (js ''It rains.'') = Some (Narration (js ''It rains.''))"
proof -
  have shaped: "\<not> speechShaped ([dashMark, dashMark] @ js ''N'')" "\<not> speechShaped (js ''It rains.'')"
    unfolding speechMatch_iff_shaped [symmetric] by (simp_all add: parse_eval)
  have 1: "parseLine (js ''Al'' @ openMark # js ''Hi'' @ [closeMark]) = Some (Speech (js ''Al'') (js ''Hi''))"
    using parseLine_first_match [of "js ''Al''" "js ''Hi'' @ [closeMark]" "[]"]
    by (simp add: parse_eval)
  have 2: "parseLine (js ''Al'' @ openMark # js ''Hi'') = Some (Speech (js ''Al'') (js ''Hi''))"
    using parseLine_first_match [of "js ''Al''" "js ''Hi''" "[]"]
    by (simp add: parse_eval)
  have 3: "parseLine ([dashMark, dashMark] @ js ''N'') = Some (Separator ([dashMark, dashMark] @ js ''N''))"
    using parseLine_first_match [of "[]" "[]" "[dashMark, dashMark] @ js ''N''"] shaped(1)
    by (simp add: js_def isWhiteSpace_def isLineTerminator_def dashMark_def)
  have 4: "parseLine (js ''It rains.'') = Some (Narration (js ''It rains.''))"
    using parseLine_first_match [of "[]" "[]" "js ''It rains.''"] shaped(2)
    by (simp add: js_def isWhiteSpace_def isLineTerminator_def dashMark_def)
  from 1 2 3 4 show ?thesis by blast
qed

text \<open>
  With the opening marker last, a line beginning with two U+2015 is a Separator, and a run
  holding an earlier opening marker is a Speech.
\<close>

theorem parseLine_open_at_end_counterexample:
  "nonSpaceRun [dashMark, dashMark] \<and>
   parseLine ([dashMark, dashMark] @ [openMark]) = Some (Separator ([dashMark, dashMark] @ [openMark])) \<and>
   nonSpaceRun (js ''a'' @ [openMark] @ js ''b'') \<and>
   parseLine ((js ''a'' @ [openMark] @ js ''b'') @ [openMark]) =
     Some (Speech (js ''a'') (js ''b'' @ [openMark]))"
  by (simp add: parse_eval)

text \<open>A name followed by the opening marker alone, and two opening markers.\<close>

theorem parseLine_open_at_end_witness:
  "parseLine (js ''Al'' @ [openMark]) = Some (Narration (js ''Al'' @ [openMark])) \<and>
   parseLine ([openMark] @ [openMark]) = Some (Narration ([openMark] @ [openMark]))"
proof -
  have 1: "parseLine (js ''Al'' @ [openMark]) = Some (Narration (js ''Al'' @ [openMark]))"
    using parseLine_open_at_end [of "js ''Al''"]
    by (simp add: js_def nonSpaceRun_def isWhiteSpace_def isLineTerminator_def openMark_def dashMark_def)
  have 2: "parseLine ([openMark] @ [openMark]) = Some (Narration ([openMark] @ [openMark]))"
    using parseLine_open_at_end [of "[openMark]"]
    by (simp add: js_def nonSpaceRun_def isWhiteSpace_def isLineTerminator_def openMark_def dashMark_def)
  from 1 2 show ?thesis by blast
qed








lemma effects_logEffect [simp]: "effects (logEffect e v) = effects v @ [e]"
  by (simp add: logEffect_def)

lemma effects_scrollToBottom:
  "effects (scrollToBottom v) = effects v @ (if userScrolledUp v then [] else [ScrollToBottom])"
  by (simp add: scrollToBottom_def)

lemmas applyScene_defs =
  applyScene_def Let_def createElement_def appendChild_def setInnerHTML_def appendSceneDiv_def
  recordLoaded_def

lemma effects_applyScene [simp]: "effects (snd (applyScene sc v)) = effects v"
  by (simp add: applyScene_defs split: sum.splits property.splits prod.splits)

lemma effects_applyScenes [simp]: "effects (snd (applyScenes scs v)) = effects v"
proof (induction scs arbitrary: v)
  case Nil
  show ?case by simp
next
  case (Cons sc scs)
  have "effects (snd (applyScene sc v)) = effects v" by simp
  with Cons.IH [of "snd (applyScene sc v)"] show ?case
    by (cases "applyScene sc v") (auto split: option.splits)
qed

lemma effects_issueFetches:
  "effects (snd (issueFetches net names v)) = effects v @ fetchEffects names"
proof (induction names arbitrary: v)
  case Nil
  show ?case by simp
next
  case (Cons name names)
  show ?case
  proof (cases "encodeURIComponent name")
    case (Inl e)
    then show ?thesis by simp
  next
    case (Inr enc)
    with Cons.IH [of "logEffect (Fetch (sceneUrl enc)) v"] show ?thesis
      by (auto split: prod.splits sum.splits)
  qed
qed

lemma toFetch_eq:
  "toFetch loaded sceneList activeScene =
     filter (\<lambda>n. n \<notin> loaded) sceneList @
     (case activeScene of None \<Rightarrow> [] | Some a \<Rightarrow> if a \<noteq> [] \<and> a \<in> loaded then [a] else [])"
  by (auto simp: toFetch_def split: option.splits)

lemma effects_loadScenes:
  "\<exists>tail. effects (snd (loadScenes net sceneList activeScene v)) =
            effects v @ fetchEffects (toFetch (loadedScenes v) sceneList activeScene) @ tail \<and>
          set tail \<subseteq> {ConsoleError, ScrollToBottom}"
proof (cases "toFetch (loadedScenes v) sceneList activeScene = []")
  case True
  then show ?thesis by (simp add: loadScenes_def)
next
  case False
  obtain r v1 where i: "issueFetches net (toFetch (loadedScenes v) sceneList activeScene) v = (r, v1)"
    by (cases "issueFetches net (toFetch (loadedScenes v) sceneList activeScene) v")
  then have e1: "effects v1 = effects v @ fetchEffects (toFetch (loadedScenes v) sceneList activeScene)"
    using effects_issueFetches [of net "toFetch (loadedScenes v) sceneList activeScene" v] by simp
  show ?thesis
  proof (cases r)
    case (Inl e)
    with False i e1 show ?thesis by (simp add: loadScenes_def)
  next
    case (Inr responses)
    show ?thesis
    proof (cases "those responses")
      case None
      with False i e1 Inr show ?thesis by (simp add: loadScenes_def)
    next
      case (Some results)
      obtain r2 v2 where a: "applyScenes results v1 = (r2, v2)" by (cases "applyScenes results v1")
      then have e2: "effects v2 = effects v1" using effects_applyScenes [of results v1] by simp
      show ?thesis
      proof (cases r2)
        case None
        with False i e1 e2 Inr Some a show ?thesis
          by (simp add: loadScenes_def effects_scrollToBottom)
      next
        case (Some e)
        with False i e1 e2 Inr \<open>those responses = Some results\<close> a show ?thesis
          by (simp add: loadScenes_def)
      qed
    qed
  qed
qed

lemma issueFetches_state:
  "snd (issueFetches net names v) = v\<lparr>effects := effects v @ fetchEffects names\<rparr>"
proof (induction names arbitrary: v)
  case Nil
  show ?case by simp
next
  case (Cons name names)
  show ?case
  proof (cases "encodeURIComponent name")
    case (Inl e)
    then show ?thesis by simp
  next
    case (Inr enc)
    with Cons.IH [of "logEffect (Fetch (sceneUrl enc)) v"] show ?thesis
      by (auto simp: logEffect_def split: prod.splits sum.splits)
  qed
qed

lemma encodeURIComponent_error: "encodeURIComponent s = Inl e \<Longrightarrow> e = URIError"
  by (induction s arbitrary: e rule: encodeURIComponent.induct)
     (auto split: if_splits sum.splits list.splits)

lemma fetchEffects_takeWhile:
  "fetchEffects names = map sceneRequest (takeWhile encodable names)"
  by (induction names) (auto simp: encodable_def sceneRequest_def split: sum.splits)

lemma issueFetches_throws:
  "\<not> list_all encodable names \<Longrightarrow> fst (issueFetches net names v) = Inl URIError"
proof (induction names arbitrary: v)
  case Nil
  then show ?case by simp
next
  case (Cons name names)
  show ?case
  proof (cases "encodeURIComponent name")
    case (Inl e)
    with encodeURIComponent_error [OF Inl] show ?thesis by simp
  next
    case (Inr enc)
    with Cons.prems have "\<not> list_all encodable names" by (simp add: encodable_def [abs_def])
    from Cons.IH [OF this, of "logEffect (Fetch (sceneUrl enc)) v"] Inr show ?thesis
      by (auto split: prod.splits sum.splits)
  qed
qed

lemma loadScenes_throws:
  assumes "\<not> list_all encodable (toFetch (loadedScenes v) sceneList activeScene)"
  shows "loadScenes net sceneList activeScene v =
     (Some URIError,
      v\<lparr>effects := effects v @
           map sceneRequest (takeWhile encodable (toFetch (loadedScenes v) sceneList activeScene))\<rparr>)"
proof -
  let ?names = "toFetch (loadedScenes v) sceneList activeScene"
  from assms have ne: "?names \<noteq> []" by auto
  have "issueFetches net ?names v =
      (Inl URIError, v\<lparr>effects := effects v @ map sceneRequest (takeWhile encodable ?names)\<rparr>)"
    using issueFetches_throws [OF assms, of net v] issueFetches_state [of net ?names v]
    by (cases "issueFetches net ?names v") (simp add: fetchEffects_takeWhile)
  with ne show ?thesis by (simp add: loadScenes_def Let_def)
qed

text \<open>
  C1 (as amended).  The names \<open>loadScenes\<close> sets out to fetch are the entries of the scene
  list that are not in the cache, in the order of the list, followed by the active scene
  name when it is neither null nor empty and is in the cache.  As a set this is the uncached
  names of the list plus such an active name; the list has no duplicates when the scene list
  has none (the active name is never added twice); when it is empty \<open>loadScenes\<close> does
  nothing; a name that is cached and is not the active scene is not in it.  The requests
  \<open>loadScenes\<close> sends are the requests for these names, in order, up to the first name that
  cannot be encoded: at such a name \<open>loadScenes\<close> throws and the names after it are not
  requested.
\<close>

theorem toFetch_exact:
  "toFetch loaded sceneList activeScene =
     filter (\<lambda>n. n \<notin> loaded) sceneList @
     (case activeScene of None \<Rightarrow> [] | Some a \<Rightarrow> if a \<noteq> [] \<and> a \<in> loaded then [a] else []) \<and>
   set (toFetch loaded sceneList activeScene) =
     {n \<in> set sceneList. n \<notin> loaded} \<union> {a. activeScene = Some a \<and> a \<noteq> [] \<and> a \<in> loaded} \<and>
   (distinct sceneList \<longrightarrow> distinct (toFetch loaded sceneList activeScene)) \<and>
   (toFetch (loadedScenes v) sceneList activeScene = [] \<longrightarrow>
      loadScenes net sceneList activeScene v = (None, v)) \<and>
   (n \<in> loaded \<and> activeScene \<noteq> Some n \<longrightarrow> n \<notin> set (toFetch loaded sceneList activeScene)) \<and>
   (\<exists>tail. effects (snd (loadScenes net sceneList activeScene v)) =
            effects v @
            map sceneRequest (takeWhile encodable (toFetch (loadedScenes v) sceneList activeScene)) @
            tail \<and>
          set tail \<subseteq> {ConsoleError, ScrollToBottom}) \<and>
   (\<not> list_all encodable (toFetch (loadedScenes v) sceneList activeScene) \<longrightarrow>
      loadScenes net sceneList activeScene v =
        (Some URIError,
         v\<lparr>effects := effects v @
              map sceneRequest
                (takeWhile encodable (toFetch (loadedScenes v) sceneList activeScene))\<rparr>))"
proof (intro conjI)
  show "toFetch loaded sceneList activeScene =
     filter (\<lambda>n. n \<notin> loaded) sceneList @
     (case activeScene of None \<Rightarrow> [] | Some a \<Rightarrow> if a \<noteq> [] \<and> a \<in> loaded then [a] else [])"
    by (rule toFetch_eq)
  show "set (toFetch loaded sceneList activeScene) =
     {n \<in> set sceneList. n \<notin> loaded} \<union> {a. activeScene = Some a \<and> a \<noteq> [] \<and> a \<in> loaded}"
    by (auto simp: toFetch_eq split: option.splits if_splits)
  show "distinct sceneList \<longrightarrow> distinct (toFetch loaded sceneList activeScene)"
    by (auto simp: toFetch_eq split: option.splits)
  show "toFetch (loadedScenes v) sceneList activeScene = [] \<longrightarrow>
      loadScenes net sceneList activeScene v = (None, v)"
    by (simp add: loadScenes_def)
  show "n \<in> loaded \<and> activeScene \<noteq> Some n \<longrightarrow> n \<notin> set (toFetch loaded sceneList activeScene)"
    by (auto simp: toFetch_eq split: option.splits if_splits)
  show "\<exists>tail. effects (snd (loadScenes net sceneList activeScene v)) =
            effects v @
            map sceneRequest (takeWhile encodable (toFetch (loadedScenes v) sceneList activeScene)) @
            tail \<and>
          set tail \<subseteq> {ConsoleError, ScrollToBottom}"
    using effects_loadScenes [of net sceneList activeScene v]
    by (simp only: fetchEffects_takeWhile)
  show "\<not> list_all encodable (toFetch (loadedScenes v) sceneList activeScene) \<longrightarrow>
      loadScenes net sceneList activeScene v =
        (Some URIError,
         v\<lparr>effects := effects v @
              map sceneRequest
                (takeWhile encodable (toFetch (loadedScenes v) sceneList activeScene))\<rparr>)"
    by (intro impI) (rule loadScenes_throws)
qed

text \<open>
  A scene list that names a scene twice gives a fetch list with a duplicate; an active
  scene whose name is the empty string is not refreshed although it is in the cache; and of
  the three uncached names \<open>s2\<close>, an unpaired surrogate and \<open>s3\<close>, only \<open>s2\<close> is requested.
\<close>

theorem toFetch_as_stated_counterexample:
  "\<not> distinct (toFetch {} [js ''s3'', js ''s3''] None) \<and>
   Some ([] :: jsstring) \<noteq> None \<and> ([] :: jsstring) \<in> {[]} \<and>
   [] \<notin> set (toFetch {[]} [] (Some [])) \<and>
   toFetch {} [js ''s2'', [0xD800], js ''s3''] None = [js ''s2'', [0xD800], js ''s3''] \<and>
   loadScenes
      \<lparr>hashResponse = None, stateResponse = None :: unit option, scenesResponse = None,
       typingResponse = None, sceneResponse = (\<lambda>u. None)\<rparr>
      [js ''s2'', [0xD800], js ''s3''] None (initialViewer Map.empty) =
     (Some URIError, (initialViewer Map.empty)\<lparr>effects := [Fetch (js ''/api/scene/s2'')]\<rparr>)"
  by (simp add: toFetch_def loadScenes_def js_def uriUnreserved_def sceneUrl_def logEffect_def
      initialViewer_def)

text \<open>
  The examples of the specification: with \<open>s1\<close> and \<open>s2\<close> cached and the list \<open>s1, s2, s3\<close>,
  the fetch list is \<open>s3\<close> without an active scene and \<open>s3, s1\<close> when \<open>s1\<close> is active.
\<close>

theorem toFetch_exact_witness:
  "toFetch {js ''s1'', js ''s2''} [js ''s1'', js ''s2'', js ''s3''] None = [js ''s3''] \<and>
   toFetch {js ''s1'', js ''s2''} [js ''s1'', js ''s2'', js ''s3''] (Some (js ''s1'')) =
     [js ''s3'', js ''s1''] \<and>
   distinct (toFetch {js ''s1'', js ''s2''} [js ''s1'', js ''s2'', js ''s3''] (Some (js ''s1''))) \<and>
   js ''s2'' \<notin> set (toFetch {js ''s1'', js ''s2''} [js ''s1'', js ''s2'', js ''s3''] (Some (js ''s1''))) \<and>
   loadScenes
      \<lparr>hashResponse = None, stateResponse = None :: unit option, scenesResponse = None,
       typingResponse = None, sceneResponse = (\<lambda>u. None)\<rparr>
      [js ''s1''] None ((initialViewer Map.empty)\<lparr>loadedScenes := {js ''s1''}\<rparr>) =
     (None, (initialViewer Map.empty)\<lparr>loadedScenes := {js ''s1''}\<rparr>) \<and>
   loadScenes
      \<lparr>hashResponse = None, stateResponse = None :: unit option, scenesResponse = None,
       typingResponse = None, sceneResponse = (\<lambda>u. None)\<rparr>
      [js ''s3'', [0xDC00], js ''s4''] None
      ((initialViewer Map.empty)\<lparr>loadedScenes := {js ''s1''}\<rparr>) =
     (Some URIError,
      (initialViewer Map.empty)
        \<lparr>loadedScenes := {js ''s1''}, effects := [Fetch (js ''/api/scene/s3'')]\<rparr>)"
proof -
  have 1: "toFetch {js ''s1'', js ''s2''} [js ''s1'', js ''s2'', js ''s3''] None = [js ''s3'']"
    using toFetch_exact [of "{js ''s1'', js ''s2''}" "[js ''s1'', js ''s2'', js ''s3'']" None
        "(initialViewer Map.empty)\<lparr>loadedScenes := {js ''s1''}\<rparr> :: unit viewer"
        "\<lparr>hashResponse = None, stateResponse = None :: unit option, scenesResponse = None,
          typingResponse = None, sceneResponse = (\<lambda>u. None)\<rparr>" "js ''s2''"]
    by (simp add: js_def)
  have 2: "toFetch {js ''s1'', js ''s2''} [js ''s1'', js ''s2'', js ''s3''] (Some (js ''s1'')) =
     [js ''s3'', js ''s1'']"
    and 3: "distinct (toFetch {js ''s1'', js ''s2''} [js ''s1'', js ''s2'', js ''s3''] (Some (js ''s1'')))"
    and 4: "js ''s2'' \<notin> set (toFetch {js ''s1'', js ''s2''} [js ''s1'', js ''s2'', js ''s3''] (Some (js ''s1'')))"
    using toFetch_exact [of "{js ''s1'', js ''s2''}" "[js ''s1'', js ''s2'', js ''s3'']"
        "Some (js ''s1'')" "(initialViewer Map.empty)\<lparr>loadedScenes := {js ''s1''}\<rparr> :: unit viewer"
        "\<lparr>hashResponse = None, stateResponse = None :: unit option, scenesResponse = None,
          typingResponse = None, sceneResponse = (\<lambda>u. None)\<rparr>" "js ''s2''"]
    by (simp_all add: js_def)
  have 5: "loadScenes
      \<lparr>hashResponse = None, stateResponse = None :: unit option, scenesResponse = None,
       typingResponse = None, sceneResponse = (\<lambda>u. None)\<rparr>
      [js ''s1''] None ((initialViewer Map.empty)\<lparr>loadedScenes := {js ''s1''}\<rparr>) =
     (None, (initialViewer Map.empty)\<lparr>loadedScenes := {js ''s1''}\<rparr>)"
    using toFetch_exact [of "{js ''s1''}" "[js ''s1'']" None
        "(initialViewer Map.empty)\<lparr>loadedScenes := {js ''s1''}\<rparr> :: unit viewer"
        "\<lparr>hashResponse = None, stateResponse = None :: unit option, scenesResponse = None,
          typingResponse = None, sceneResponse = (\<lambda>u. None)\<rparr>" "js ''s1''"]
    by (simp add: js_def)
  have 6: "loadScenes
      \<lparr>hashResponse = None, stateResponse = None :: unit option, scenesResponse = None,
       typingResponse = None, sceneResponse = (\<lambda>u. None)\<rparr>
      [js ''s3'', [0xDC00], js ''s4''] None
      ((initialViewer Map.empty)\<lparr>loadedScenes := {js ''s1''}\<rparr>) =
     (Some URIError,
      (initialViewer Map.empty)
        \<lparr>loadedScenes := {js ''s1''}, effects := [Fetch (js ''/api/scene/s3'')]\<rparr>)"
    using toFetch_exact [of "{js ''s1''}" "[js ''s3'', [0xDC00], js ''s4'']" None
        "(initialViewer Map.empty)\<lparr>loadedScenes := {js ''s1''}\<rparr> :: unit viewer"
        "\<lparr>hashResponse = None, stateResponse = None :: unit option, scenesResponse = None,
          typingResponse = None, sceneResponse = (\<lambda>u. None)\<rparr>" "js ''s1''"]
    by (simp add: toFetch_def encodable_def sceneRequest_def sceneUrl_def uriUnreserved_def
        initialViewer_def js_def)
  from 1 2 3 4 5 6 show ?thesis by blast
qed

lemma pageStep_refl: "pageStep v v"
  by (simp add: pageStep_def)

lemma pageStep_trans: "pageStep v v' \<Longrightarrow> pageStep v' v'' \<Longrightarrow> pageStep v v''"
  by (auto simp: pageStep_def)

lemma pageStep_logEffect: "pageEffect e \<Longrightarrow> pageStep v (logEffect e v)"
  by (simp add: pageStep_def logEffect_def)

lemma pageStep_scrollToBottom: "pageStep v (scrollToBottom v)"
  by (simp add: scrollToBottom_def pageStep_logEffect pageStep_refl)

lemma pageStep_applyScene: "pageStep v (snd (applyScene sc v))"
  by (simp add: pageStep_def applyScene_defs split: sum.splits property.splits prod.splits)

lemma pageStep_applyScenes: "pageStep v (snd (applyScenes scs v))"
proof (induction scs arbitrary: v)
  case Nil
  show ?case by (simp add: pageStep_refl)
next
  case (Cons sc scs)
  show ?case
  proof (cases "applyScene sc v")
    case (Pair r v')
    with pageStep_applyScene [of v sc] have s: "pageStep v v'" by simp
    show ?thesis
    proof (cases r)
      case None
      with Pair s Cons.IH [of v'] show ?thesis by (auto intro: pageStep_trans)
    next
      case (Some e)
      with Pair s show ?thesis by simp
    qed
  qed
qed

lemma pageStep_issueFetches: "pageStep v (snd (issueFetches net names v))"
proof (induction names arbitrary: v)
  case Nil
  show ?case by (simp add: pageStep_refl)
next
  case (Cons name names)
  show ?case
  proof (cases "encodeURIComponent name")
    case (Inl e)
    then show ?thesis by (simp add: pageStep_refl)
  next
    case (Inr enc)
    have "pageStep v (logEffect (Fetch (sceneUrl enc)) v)" by (simp add: pageStep_logEffect)
    with Cons.IH [of "logEffect (Fetch (sceneUrl enc)) v"] Inr show ?thesis
      by (auto split: prod.splits sum.splits intro: pageStep_trans)
  qed
qed

lemma pageStep_loadScenes: "pageStep v (snd (loadScenes net sceneList activeScene v))"
proof -
  let ?names = "toFetch (loadedScenes v) sceneList activeScene"
  obtain r v1 where i: "issueFetches net ?names v = (r, v1)" by (cases "issueFetches net ?names v")
  with pageStep_issueFetches [of v net ?names] have s1: "pageStep v v1" by simp
  have log: "pageStep v (logEffect ConsoleError v1)"
    using s1 pageStep_logEffect [of ConsoleError v1] by (auto intro: pageStep_trans)
  show ?thesis
  proof (cases r)
    case (Inl e)
    with i s1 show ?thesis by (simp add: loadScenes_def Let_def pageStep_refl)
  next
    case (Inr responses)
    show ?thesis
    proof (cases "those responses")
      case None
      with i Inr log show ?thesis by (simp add: loadScenes_def Let_def pageStep_refl)
    next
      case (Some results)
      obtain r2 v2 where a: "applyScenes results v1 = (r2, v2)" by (cases "applyScenes results v1")
      with pageStep_applyScenes [of v1 results] s1 have s2: "pageStep v v2"
        by (auto intro: pageStep_trans)
      then have "pageStep v (logEffect ConsoleError v2)" "pageStep v (scrollToBottom v2)"
        using pageStep_logEffect [of ConsoleError v2] pageStep_scrollToBottom [of v2]
        by (auto intro: pageStep_trans)
      with i Inr Some a show ?thesis
        by (cases r2) (simp_all add: loadScenes_def Let_def pageStep_refl)
    qed
  qed
qed

lemma pageStep_renderTypingIndicator: "pageStep v (snd (renderTypingIndicator typingData v))"
  by (simp add: pageStep_def renderTypingIndicator_def Let_def createElement_def appendChild_def
      removeChild_def setInnerHTML_def scrollToBottom_def logEffect_def
      split: sum.splits option.splits prod.splits)

lemma update_rejected:
  "stateResponse net = None \<or> scenesResponse net = None \<Longrightarrow>
   update net v = (Some FetchError, v\<lparr>effects := effects v @ refreshRequests\<rparr>)"
  by (auto simp: update_def Let_def logEffect_def refreshRequests_def split: option.splits)

lemma update_answered:
  assumes "stateResponse net = Some st" "scenesResponse net = Some sceneList"
  shows "\<exists>v5. snd (update net v) = v5 \<and>
     pageStep (renderSidebar st
                 (v\<lparr>effects := effects v @ refreshRequests,
                    isTyping := hasNpc (case typingResponse net of None \<Rightarrow> None | Some t \<Rightarrow> t)\<rparr>)) v5"
proof -
  let ?td = "case typingResponse net of None \<Rightarrow> None | Some t \<Rightarrow> t"
  let ?v3 = "renderSidebar st (v\<lparr>effects := effects v @ refreshRequests, isTyping := hasNpc ?td\<rparr>)"
  let ?active = "if hasNpc ?td then scene (the ?td) else None"
  obtain r v4 where l: "loadScenes net sceneList ?active ?v3 = (r, v4)"
    by (cases "loadScenes net sceneList ?active ?v3")
  with pageStep_loadScenes [of ?v3 net sceneList ?active] have s4: "pageStep ?v3 v4" by simp
  have u: "update net v =
      (case loadScenes net sceneList ?active ?v3 of
         (Some e, v4) \<Rightarrow> (Some e, v4)
       | (None, v4) \<Rightarrow> renderTypingIndicator ?td v4)"
    using assms by (simp add: update_def Let_def logEffect_def refreshRequests_def renderSidebar_def)
  show ?thesis
  proof (cases r)
    case None
    with u l have "snd (update net v) = snd (renderTypingIndicator ?td v4)" by simp
    with s4 pageStep_renderTypingIndicator [of v4 ?td] show ?thesis
      by (auto intro: pageStep_trans)
  next
    case (Some e)
    with u l s4 show ?thesis by simp
  qed
qed

lemma update_frame:
  "lastHash (snd (update net v)) = lastHash v \<and>
   disconnected (snd (update net v)) = disconnected v \<and>
   charDescriptions (snd (update net v)) = charDescriptions v \<and>
   userScrolledUp (snd (update net v)) = userScrolledUp v \<and>
   (\<exists>es. effects (snd (update net v)) = effects v @ refreshRequests @ es \<and> list_all pageEffect es)"
proof (cases "stateResponse net = None \<or> scenesResponse net = None")
  case True
  then show ?thesis by (simp add: update_rejected)
next
  case False
  then obtain st sceneList where "stateResponse net = Some st" "scenesResponse net = Some sceneList"
    by auto
  from update_answered [OF this, of v] show ?thesis
    by (auto simp: pageStep_def renderSidebar_def)
qed


lemma pageEffect_not_timer: "list_all pageEffect es \<Longrightarrow> list_all (\<lambda>e. \<not> isTimer e) es"
  by (induction es) (auto elim: pageEffect.elims)

lemma pageEffect_not_Add: "list_all pageEffect es \<Longrightarrow> AddDisconnected \<notin> set es"
  by (induction es) auto

lemma poll_hash_failed:
  "hashResponse net = None \<Longrightarrow>
   poll net v = v\<lparr>disconnected := True,
                 effects := effects v @ [Fetch (js ''/api/hash''), AddDisconnected, SetTimeout (nextDelay v)]\<rparr>"
  by (simp add: poll_def logEffect_def nextDelay_def)

lemma poll_hash_same:
  "hashResponse net = Some h \<Longrightarrow> lastHash v = Some h \<Longrightarrow>
   poll net v = v\<lparr>disconnected := False,
                 effects := effects v @ [Fetch (js ''/api/hash''), RemoveDisconnected, SetTimeout (nextDelay v)]\<rparr>"
  by (simp add: poll_def logEffect_def nextDelay_def)

lemma poll_hash_changed:
  assumes "hashResponse net = Some h" "lastHash v \<noteq> Some h"
  shows "poll net v =
     (case update net (afterHash h v) of
        (None, v') \<Rightarrow> logEffect (SetTimeout (nextDelay v')) v'
      | (Some e, v') \<Rightarrow>
          logEffect (SetTimeout (nextDelay v')) (logEffect AddDisconnected (v'\<lparr>disconnected := True\<rparr>)))"
proof -
  have "logEffect RemoveDisconnected (logEffect (Fetch (js ''/api/hash'')) v\<lparr>disconnected := False\<rparr>)
          \<lparr>lastHash := Some h\<rparr> = afterHash h v"
    by (simp add: logEffect_def afterHash_def)
  with assms show ?thesis
    by (cases "update net (afterHash h v)")
       (auto simp: poll_def Let_def nextDelay_def logEffect_def split: option.splits)
qed

lemma issueFetches_responses:
  "list_all (\<lambda>n. \<not> isl (encodeURIComponent n)) names \<Longrightarrow>
   fst (issueFetches net names v) =
     Inr (map (\<lambda>n. sceneResponse net (sceneUrl (projr (encodeURIComponent n)))) names)"
proof (induction names arbitrary: v)
  case Nil
  show ?case by simp
next
  case (Cons name names)
  then obtain enc where enc: "encodeURIComponent name = Inr enc"
    by (cases "encodeURIComponent name") auto
  from Cons.prems have "list_all (\<lambda>n. \<not> isl (encodeURIComponent n)) names" by simp
  from Cons.IH [OF this, of "logEffect (Fetch (sceneUrl enc)) v"] enc show ?case
    by (auto split: prod.splits sum.splits)
qed

lemma those_None: "None \<in> set xs \<Longrightarrow> those xs = None"
  by (induction xs) (auto split: option.splits)

lemma loadScenes_fetch_failed:
  assumes names: "names = toFetch (loadedScenes v) sceneList activeScene"
    and enc: "list_all (\<lambda>n. \<not> isl (encodeURIComponent n)) names"
    and failed: "\<exists>n\<in>set names. sceneResponse net (sceneUrl (projr (encodeURIComponent n))) = None"
  shows "loadScenes net sceneList activeScene v =
     (None, v\<lparr>effects := effects v @ fetchEffects names @ [ConsoleError]\<rparr>)"
proof -
  let ?rs = "map (\<lambda>n. sceneResponse net (sceneUrl (projr (encodeURIComponent n)))) names"
  from failed have ne: "names \<noteq> []" by auto
  from failed have "None \<in> set ?rs" by force
  then have th: "those ?rs = None" by (rule those_None)
  have "issueFetches net names v = (Inr ?rs, v\<lparr>effects := effects v @ fetchEffects names\<rparr>)"
    using issueFetches_responses [OF enc, of net v] issueFetches_state [of net names v]
    by (cases "issueFetches net names v") simp
  with ne th names show ?thesis
    by (simp add: loadScenes_def Let_def logEffect_def)
qed

text \<open>
  C4.  When the fingerprint request succeeds with the hash last seen, \<open>poll\<close> sends no other
  request and changes nothing but the connection indicator, which it clears, and the log,
  which ends with the timer of the next poll.  When the hash differs from the one last seen
  (none has been seen at the first request), the new hash is stored, the three requests of
  a refresh (state, scene list, typing) follow at once, and the cycle again ends with the
  one timer of the next poll.
\<close>

theorem poll_hash_comparison:
  "hashResponse net = Some h \<longrightarrow>
     (lastHash v = Some h \<longrightarrow>
        poll net v =
          v\<lparr>disconnected := False,
            effects := effects v @
              [Fetch (js ''/api/hash''), RemoveDisconnected, SetTimeout (nextDelay v)]\<rparr>) \<and>
     (lastHash v \<noteq> Some h \<longrightarrow>
        lastHash (poll net v) = Some h \<and>
        (\<exists>es. effects (poll net v) =
                effects v @ [Fetch (js ''/api/hash''), RemoveDisconnected] @ refreshRequests @ es @
                [SetTimeout (nextDelay (poll net v))] \<and>
              list_all (\<lambda>e. \<not> isTimer e) es))"
proof (intro impI conjI)
  assume "hashResponse net = Some h" "lastHash v = Some h"
  then show "poll net v =
          v\<lparr>disconnected := False,
            effects := effects v @
              [Fetch (js ''/api/hash''), RemoveDisconnected, SetTimeout (nextDelay v)]\<rparr>"
    by (rule poll_hash_same)
next
  assume h: "hashResponse net = Some h" and d: "lastHash v \<noteq> Some h"
  obtain r v' where u: "update net (afterHash h v) = (r, v')" by (cases "update net (afterHash h v)")
  from update_frame [of net "afterHash h v"] u obtain es where
    f: "lastHash v' = Some h"
    "effects v' = effects v @ [Fetch (js ''/api/hash''), RemoveDisconnected] @ refreshRequests @ es"
    "list_all pageEffect es"
    by (auto simp: afterHash_def)
  from f(3) have nt: "list_all (\<lambda>e. \<not> isTimer e) es" by (rule pageEffect_not_timer)
  show "lastHash (poll net v) = Some h"
    using poll_hash_changed [OF h d] u f(1) by (cases r) (simp_all add: logEffect_def)
  show "\<exists>es. effects (poll net v) =
                effects v @ [Fetch (js ''/api/hash''), RemoveDisconnected] @ refreshRequests @ es @
                [SetTimeout (nextDelay (poll net v))] \<and>
              list_all (\<lambda>e. \<not> isTimer e) es"
  proof (cases r)
    case None
    with poll_hash_changed [OF h d] u f(2) nt show ?thesis
      by (intro exI [of _ es]) (simp add: logEffect_def nextDelay_def)
  next
    case (Some e)
    with poll_hash_changed [OF h d] u f(2) nt show ?thesis
      by (intro exI [of _ "es @ [AddDisconnected]"]) (simp add: logEffect_def nextDelay_def)
  qed
qed

text \<open>
  C7.  When the fingerprint request fails, \<open>poll\<close> shows the disconnected indicator, sends no
  other request, leaves the hash last seen and everything else as they were, and sets the
  timer of the next poll.  When the fingerprint request succeeds, the first thing \<open>poll\<close>
  does is to clear the indicator; it is still cleared at the end of the cycle unless a
  later step of the same cycle showed it again.
\<close>

theorem poll_hash_failure:
  "(hashResponse net = None \<longrightarrow>
      poll net v =
        v\<lparr>disconnected := True,
          effects := effects v @
            [Fetch (js ''/api/hash''), AddDisconnected, SetTimeout (nextDelay v)]\<rparr>) \<and>
   (hashResponse net = Some h \<longrightarrow>
      (\<exists>es. effects (poll net v) =
              effects v @ [Fetch (js ''/api/hash''), RemoveDisconnected] @ es \<and>
            disconnected (poll net v) = (AddDisconnected \<in> set es)))"
proof (intro impI conjI)
  assume "hashResponse net = None"
  then show "poll net v =
        v\<lparr>disconnected := True,
          effects := effects v @
            [Fetch (js ''/api/hash''), AddDisconnected, SetTimeout (nextDelay v)]\<rparr>"
    by (rule poll_hash_failed)
next
  assume h: "hashResponse net = Some h"
  show "\<exists>es. effects (poll net v) =
              effects v @ [Fetch (js ''/api/hash''), RemoveDisconnected] @ es \<and>
            disconnected (poll net v) = (AddDisconnected \<in> set es)"
  proof (cases "lastHash v = Some h")
    case True
    from poll_hash_same [OF h True] show ?thesis
      by (intro exI [of _ "[SetTimeout (nextDelay v)]"]) simp
  next
    case False
    obtain r v' where u: "update net (afterHash h v) = (r, v')"
      by (cases "update net (afterHash h v)")
    from update_frame [of net "afterHash h v"] u obtain es where
      f: "disconnected v' = False"
      "effects v' = effects v @ [Fetch (js ''/api/hash''), RemoveDisconnected] @ refreshRequests @ es"
      "list_all pageEffect es"
      by (auto simp: afterHash_def)
    from f(3) have na: "AddDisconnected \<notin> set es" by (rule pageEffect_not_Add)
    show ?thesis
    proof (cases r)
      case None
      with poll_hash_changed [OF h False] u f na show ?thesis
        by (intro exI [of _ "refreshRequests @ es @ [SetTimeout (nextDelay v')]"])
           (simp add: logEffect_def refreshRequests_def)
    next
      case (Some e)
      with poll_hash_changed [OF h False] u f na show ?thesis
        by (intro exI [of _ "refreshRequests @ es @ [AddDisconnected, SetTimeout (nextDelay v')]"])
           (simp add: logEffect_def refreshRequests_def)
    qed
  qed
qed

text \<open>A poll that sees the hash again, and the first poll of a viewer that has seen none.\<close>

theorem poll_hash_comparison_witness:
  "poll \<lparr>hashResponse = Some (js ''h1''), stateResponse = Some (), scenesResponse = Some [],
         typingResponse = Some None, sceneResponse = (\<lambda>u. None)\<rparr>
      ((initialViewer Map.empty)\<lparr>lastHash := Some (js ''h1'')\<rparr>) =
     (initialViewer Map.empty)
       \<lparr>lastHash := Some (js ''h1''),
        effects := [Fetch (js ''/api/hash''), RemoveDisconnected, SetTimeout 3000]\<rparr> \<and>
   lastHash (poll \<lparr>hashResponse = Some (js ''h1''), stateResponse = Some (),
                   scenesResponse = Some [], typingResponse = Some None,
                   sceneResponse = (\<lambda>u. None)\<rparr>
               (initialViewer Map.empty)) = Some (js ''h1'')"
proof -
  have 1: "poll \<lparr>hashResponse = Some (js ''h1''), stateResponse = Some (), scenesResponse = Some [],
         typingResponse = Some None, sceneResponse = (\<lambda>u. None)\<rparr>
      ((initialViewer Map.empty)\<lparr>lastHash := Some (js ''h1'')\<rparr>) =
     (initialViewer Map.empty)
       \<lparr>lastHash := Some (js ''h1''),
        effects := [Fetch (js ''/api/hash''), RemoveDisconnected, SetTimeout 3000]\<rparr>"
    using poll_hash_comparison
      [of "\<lparr>hashResponse = Some (js ''h1''), stateResponse = Some (), scenesResponse = Some [],
            typingResponse = Some None, sceneResponse = (\<lambda>u. None)\<rparr>"
          "js ''h1''" "(initialViewer Map.empty)\<lparr>lastHash := Some (js ''h1'')\<rparr>"]
    by (simp add: initialViewer_def nextDelay_def POLL_INTERVAL_NORMAL_def)
  have 2: "lastHash (poll \<lparr>hashResponse = Some (js ''h1''), stateResponse = Some (),
                   scenesResponse = Some [], typingResponse = Some None,
                   sceneResponse = (\<lambda>u. None)\<rparr>
               (initialViewer Map.empty)) = Some (js ''h1'')"
    using poll_hash_comparison
      [of "\<lparr>hashResponse = Some (js ''h1''), stateResponse = Some (), scenesResponse = Some [],
            typingResponse = Some None, sceneResponse = (\<lambda>u. None)\<rparr>"
          "js ''h1''" "initialViewer Map.empty"]
    by (simp add: initialViewer_def)
  from 1 2 show ?thesis by blast
qed

text \<open>A failed fingerprint request, and a successful one while the indicator is shown.\<close>

theorem poll_hash_failure_witness:
  "poll \<lparr>hashResponse = None, stateResponse = Some (), scenesResponse = Some [],
         typingResponse = Some None, sceneResponse = (\<lambda>u. None)\<rparr>
      (initialViewer Map.empty) =
     (initialViewer Map.empty)
       \<lparr>disconnected := True,
        effects := [Fetch (js ''/api/hash''), AddDisconnected, SetTimeout 3000]\<rparr> \<and>
   \<not> disconnected
       (poll \<lparr>hashResponse = Some (js ''h1''), stateResponse = Some (), scenesResponse = Some [],
               typingResponse = Some None, sceneResponse = (\<lambda>u. None)\<rparr>
          ((initialViewer Map.empty)\<lparr>lastHash := Some (js ''h1''), disconnected := True\<rparr>))"
proof -
  have 1: "poll \<lparr>hashResponse = None, stateResponse = Some (), scenesResponse = Some [],
         typingResponse = Some None, sceneResponse = (\<lambda>u. None)\<rparr>
      (initialViewer Map.empty) =
     (initialViewer Map.empty)
       \<lparr>disconnected := True,
        effects := [Fetch (js ''/api/hash''), AddDisconnected, SetTimeout 3000]\<rparr>"
    using poll_hash_failure
      [of "\<lparr>hashResponse = None, stateResponse = Some (), scenesResponse = Some [],
            typingResponse = Some None, sceneResponse = (\<lambda>u. None)\<rparr>"
          "initialViewer Map.empty" "[]"]
    by (simp add: initialViewer_def nextDelay_def POLL_INTERVAL_NORMAL_def)
  have 2: "\<not> disconnected
       (poll \<lparr>hashResponse = Some (js ''h1''), stateResponse = Some (), scenesResponse = Some [],
               typingResponse = Some None, sceneResponse = (\<lambda>u. None)\<rparr>
          ((initialViewer Map.empty)\<lparr>lastHash := Some (js ''h1''), disconnected := True\<rparr>))"
    using poll_hash_failure
      [of "\<lparr>hashResponse = Some (js ''h1''), stateResponse = Some (), scenesResponse = Some [],
            typingResponse = Some None, sceneResponse = (\<lambda>u. None)\<rparr>"
          "(initialViewer Map.empty)\<lparr>lastHash := Some (js ''h1''), disconnected := True\<rparr>"
          "js ''h1''"]
    by (simp add: poll_def Let_def logEffect_def initialViewer_def)
  from 1 2 show ?thesis by blast
qed

lemma poll_ends_with_timer:
  "\<exists>es. effects (poll net v) = effects v @ es @ [SetTimeout (nextDelay (poll net v))] \<and>
        list_all (\<lambda>e. \<not> isTimer e) es"
proof (cases "hashResponse net")
  case None
  from poll_hash_failed [OF this, of v] show ?thesis
    by (intro exI [of _ "[Fetch (js ''/api/hash''), AddDisconnected]"]) (simp add: nextDelay_def)
next
  case (Some h)
  show ?thesis
  proof (cases "lastHash v = Some h")
    case True
    from poll_hash_same [OF Some True] show ?thesis
      by (intro exI [of _ "[Fetch (js ''/api/hash''), RemoveDisconnected]"]) (simp add: nextDelay_def)
  next
    case False
    obtain r v' where u: "update net (afterHash h v) = (r, v')"
      by (cases "update net (afterHash h v)")
    from update_frame [of net "afterHash h v"] u obtain es where
      f: "effects v' = effects v @ [Fetch (js ''/api/hash''), RemoveDisconnected] @ refreshRequests @ es"
      "list_all pageEffect es"
      by (auto simp: afterHash_def)
    from f(2) have nt: "list_all (\<lambda>e. \<not> isTimer e) es" by (rule pageEffect_not_timer)
    show ?thesis
    proof (cases r)
      case None
      with poll_hash_changed [OF Some False] u f(1) nt show ?thesis
        by (intro exI [of _ "[Fetch (js ''/api/hash''), RemoveDisconnected] @ refreshRequests @ es"])
           (simp add: logEffect_def nextDelay_def refreshRequests_def)
    next
      case (Some e)
      with poll_hash_changed [OF \<open>hashResponse net = Some h\<close> False] u f(1) nt show ?thesis
        by (intro exI [of _ "[Fetch (js ''/api/hash''), RemoveDisconnected] @ refreshRequests @ es @ [AddDisconnected]"])
           (simp add: logEffect_def nextDelay_def refreshRequests_def)
    qed
  qed
qed

lemma poll_refresh_rejected:
  assumes h: "hashResponse net = Some h" and d: "lastHash v \<noteq> Some h"
    and f: "stateResponse net = None \<or> scenesResponse net = None"
  shows "poll net v =
     v\<lparr>disconnected := True, lastHash := Some h,
       effects := effects v @ [Fetch (js ''/api/hash''), RemoveDisconnected] @ refreshRequests @
                  [AddDisconnected, SetTimeout (nextDelay v)]\<rparr>"
  using poll_hash_changed [OF h d] update_rejected [OF f, of "afterHash h v"]
  by (simp add: afterHash_def logEffect_def nextDelay_def)

lemma update_unfold:
  assumes "stateResponse net = Some st" "scenesResponse net = Some sceneList"
  shows "update net v =
     (case loadScenes net sceneList
             (if hasNpc (case typingResponse net of None \<Rightarrow> None | Some t \<Rightarrow> t)
              then scene (the (case typingResponse net of None \<Rightarrow> None | Some t \<Rightarrow> t)) else None)
             (renderSidebar st
                (v\<lparr>effects := effects v @ refreshRequests,
                   isTyping := hasNpc (case typingResponse net of None \<Rightarrow> None | Some t \<Rightarrow> t)\<rparr>)) of
        (Some e, v4) \<Rightarrow> (Some e, v4)
      | (None, v4) \<Rightarrow>
          renderTypingIndicator (case typingResponse net of None \<Rightarrow> None | Some t \<Rightarrow> t) v4)"
  using assms by (simp add: update_def Let_def logEffect_def refreshRequests_def renderSidebar_def)

lemma update_continues:
  assumes s: "stateResponse net = Some st" "scenesResponse net = Some sceneList"
    and td: "td = (case typingResponse net of None \<Rightarrow> None | Some t \<Rightarrow> t)"
    and v3: "v3 = renderSidebar st (v\<lparr>effects := effects v @ refreshRequests, isTyping := hasNpc td\<rparr>)"
    and l: "loadScenes net sceneList (if hasNpc td then scene (the td) else None) v3 = (None, v4)"
  shows "update net v = renderTypingIndicator td v4"
proof -
  from l have "loadScenes net sceneList
             (if hasNpc (case typingResponse net of None \<Rightarrow> None | Some t \<Rightarrow> t)
              then scene (the (case typingResponse net of None \<Rightarrow> None | Some t \<Rightarrow> t)) else None)
             (renderSidebar st
                (v\<lparr>effects := effects v @ refreshRequests,
                   isTyping := hasNpc (case typingResponse net of None \<Rightarrow> None | Some t \<Rightarrow> t)\<rparr>)) =
          (None, v4)"
    unfolding v3 td .
  then show ?thesis
    unfolding td by (simp only: update_unfold [OF s] prod.case option.case)
qed

text \<open>
  C8 (as amended).  A failed request for the content of a scene is logged and swallowed by
  \<open>loadScenes\<close>: no scene of the batch is applied, the promise is fulfilled, and \<open>update\<close>
  goes on to the typing indicator.  A failed state or scene-list request rejects \<open>update\<close>
  after its three requests, without a log entry and without rendering anything; in \<open>poll\<close>
  that rejection shows the disconnected indicator, with the new hash already stored.  Every
  poll cycle, whatever failed, ends with the one timer of the next poll.
\<close>

theorem refresh_failure_handling:
  "(names = toFetch (loadedScenes v) sceneList activeScene \<and>
    list_all (\<lambda>n. \<not> isl (encodeURIComponent n)) names \<and>
    (\<exists>n\<in>set names. sceneResponse net (sceneUrl (projr (encodeURIComponent n))) = None) \<longrightarrow>
      loadScenes net sceneList activeScene v =
        (None, v\<lparr>effects := effects v @ fetchEffects names @ [ConsoleError]\<rparr>)) \<and>
   (stateResponse net = Some st \<and> scenesResponse net = Some sceneList \<and>
    td = (case typingResponse net of None \<Rightarrow> None | Some t \<Rightarrow> t) \<and>
    shown = renderSidebar st (v\<lparr>effects := effects v @ refreshRequests, isTyping := hasNpc td\<rparr>) \<and>
    loadScenes net sceneList (if hasNpc td then scene (the td) else None) shown = (None, synced) \<longrightarrow>
      update net v = renderTypingIndicator td synced) \<and>
   (stateResponse net = None \<or> scenesResponse net = None \<longrightarrow>
      update net v = (Some FetchError, v\<lparr>effects := effects v @ refreshRequests\<rparr>)) \<and>
   (hashResponse net = Some h \<and> lastHash v \<noteq> Some h \<and>
    (stateResponse net = None \<or> scenesResponse net = None) \<longrightarrow>
      poll net v =
        v\<lparr>disconnected := True, lastHash := Some h,
          effects := effects v @ [Fetch (js ''/api/hash''), RemoveDisconnected] @ refreshRequests @
                     [AddDisconnected, SetTimeout (nextDelay v)]\<rparr>) \<and>
   (\<exists>es. effects (poll net v) = effects v @ es @ [SetTimeout (nextDelay (poll net v))] \<and>
         list_all (\<lambda>e. \<not> isTimer e) es)"
proof (intro conjI impI)
  assume "names = toFetch (loadedScenes v) sceneList activeScene \<and>
    list_all (\<lambda>n. \<not> isl (encodeURIComponent n)) names \<and>
    (\<exists>n\<in>set names. sceneResponse net (sceneUrl (projr (encodeURIComponent n))) = None)"
  then show "loadScenes net sceneList activeScene v =
        (None, v\<lparr>effects := effects v @ fetchEffects names @ [ConsoleError]\<rparr>)"
    using loadScenes_fetch_failed [of names v sceneList activeScene net] by blast
next
  assume "stateResponse net = Some st \<and> scenesResponse net = Some sceneList \<and>
    td = (case typingResponse net of None \<Rightarrow> None | Some t \<Rightarrow> t) \<and>
    shown = renderSidebar st (v\<lparr>effects := effects v @ refreshRequests, isTyping := hasNpc td\<rparr>) \<and>
    loadScenes net sceneList (if hasNpc td then scene (the td) else None) shown = (None, synced)"
  then show "update net v = renderTypingIndicator td synced"
    using update_continues [of net st sceneList td shown v synced] by blast
next
  assume "stateResponse net = None \<or> scenesResponse net = None"
  then show "update net v = (Some FetchError, v\<lparr>effects := effects v @ refreshRequests\<rparr>)"
    by (rule update_rejected)
next
  assume "hashResponse net = Some h \<and> lastHash v \<noteq> Some h \<and>
    (stateResponse net = None \<or> scenesResponse net = None)"
  then show "poll net v =
        v\<lparr>disconnected := True, lastHash := Some h,
          effects := effects v @ [Fetch (js ''/api/hash''), RemoveDisconnected] @ refreshRequests @
                     [AddDisconnected, SetTimeout (nextDelay v)]\<rparr>"
    using poll_refresh_rejected [of net h v] by blast
next
  show "\<exists>es. effects (poll net v) = effects v @ es @ [SetTimeout (nextDelay (poll net v))] \<and>
         list_all (\<lambda>e. \<not> isTimer e) es"
    by (rule poll_ends_with_timer)
qed

text \<open>
  The fingerprint request succeeds and the state request fails: the disconnected indicator
  is shown, nothing is logged to the console and the sidebar is not rendered.
\<close>

theorem refresh_failure_counterexample:
  "poll \<lparr>hashResponse = Some (js ''h1''), stateResponse = None :: unit option,
         scenesResponse = Some [], typingResponse = Some None, sceneResponse = (\<lambda>u. None)\<rparr>
      (initialViewer Map.empty) =
     (initialViewer Map.empty)
       \<lparr>disconnected := True, lastHash := Some (js ''h1''),
        effects := [Fetch (js ''/api/hash''), RemoveDisconnected, Fetch (js ''/api/state''),
                    Fetch (js ''/api/scenes''), Fetch (js ''/api/typing''), AddDisconnected,
                    SetTimeout 3000]\<rparr>"
  by (simp add: poll_def update_def Let_def logEffect_def initialViewer_def
      POLL_INTERVAL_NORMAL_def)

text \<open>
  A refresh in which the request for the content of scene \<open>s1\<close> fails, and a poll whose
  state request fails.
\<close>

theorem refresh_failure_handling_witness:
  "loadScenes \<lparr>hashResponse = Some (js ''h1''), stateResponse = Some (), scenesResponse = Some [js ''s1''],
               typingResponse = Some None, sceneResponse = (\<lambda>u. None)\<rparr>
      [js ''s1''] None (initialViewer Map.empty) =
     (None, (initialViewer Map.empty)\<lparr>effects := [Fetch (js ''/api/scene/s1''), ConsoleError]\<rparr>) \<and>
   update \<lparr>hashResponse = Some (js ''h1''), stateResponse = None :: unit option,
           scenesResponse = Some [js ''s1''], typingResponse = Some None,
           sceneResponse = (\<lambda>u. None)\<rparr>
      (initialViewer Map.empty) =
     (Some FetchError, (initialViewer Map.empty)\<lparr>effects := refreshRequests\<rparr>) \<and>
   disconnected
     (poll \<lparr>hashResponse = Some (js ''h1''), stateResponse = None :: unit option,
             scenesResponse = Some [js ''s1''], typingResponse = Some None,
             sceneResponse = (\<lambda>u. None)\<rparr>
        (initialViewer Map.empty))"
proof -
  have 1: "loadScenes \<lparr>hashResponse = Some (js ''h1''), stateResponse = Some (), scenesResponse = Some [js ''s1''],
               typingResponse = Some None, sceneResponse = (\<lambda>u. None)\<rparr>
      [js ''s1''] None (initialViewer Map.empty) =
     (None, (initialViewer Map.empty)\<lparr>effects := [Fetch (js ''/api/scene/s1''), ConsoleError]\<rparr>)"
    using refresh_failure_handling
      [where names = "[js ''s1'']" and v = "initialViewer Map.empty" and sceneList = "[js ''s1'']"
         and activeScene = None
         and net = "\<lparr>hashResponse = Some (js ''h1''), stateResponse = Some (), scenesResponse = Some [js ''s1''],
               typingResponse = Some None, sceneResponse = (\<lambda>u. None)\<rparr>"
         and st = "()" and td = None and h = "js ''h1''"
         and shown = "initialViewer Map.empty" and synced = "initialViewer Map.empty"]
    by (simp add: toFetch_def initialViewer_def sceneUrl_def js_def uriUnreserved_def)
  have 2: "update \<lparr>hashResponse = Some (js ''h1''), stateResponse = None :: unit option,
           scenesResponse = Some [js ''s1''], typingResponse = Some None,
           sceneResponse = (\<lambda>u. None)\<rparr>
      (initialViewer Map.empty) =
     (Some FetchError, (initialViewer Map.empty)\<lparr>effects := refreshRequests\<rparr>)"
    and 3: "disconnected
     (poll \<lparr>hashResponse = Some (js ''h1''), stateResponse = None :: unit option,
             scenesResponse = Some [js ''s1''], typingResponse = Some None,
             sceneResponse = (\<lambda>u. None)\<rparr>
        (initialViewer Map.empty))"
    using refresh_failure_handling
      [where names = "[js ''s1'']" and v = "initialViewer Map.empty" and sceneList = "[js ''s1'']"
         and activeScene = None
         and net = "\<lparr>hashResponse = Some (js ''h1''), stateResponse = None :: unit option,
           scenesResponse = Some [js ''s1''], typingResponse = Some None,
           sceneResponse = (\<lambda>u. None)\<rparr>"
         and st = "()" and td = None and h = "js ''h1''"
         and shown = "initialViewer Map.empty" and synced = "initialViewer Map.empty"]
    by (simp_all add: initialViewer_def)
  from 1 2 3 show ?thesis by blast
qed


lemma wellFormed_cong:
  assumes "scenesChildren v' = scenesChildren v" "nextHandle v' = nextHandle v"
    "sceneDivs v' = sceneDivs v" "\<And>h. elId (heap v' h) = elId (heap v h)"
  shows "wellFormed v' = wellFormed v"
proof -
  have "isIndicator v' = isIndicator v" using assms(4) by (simp add: isIndicator_def fun_eq_iff)
  with assms(1-3) show ?thesis by (simp add: wellFormed_def)
qed

lemma wellFormed_logEffect [simp]: "wellFormed (logEffect e v) = wellFormed v"
  by (rule wellFormed_cong) (simp_all add: logEffect_def)

lemma wellFormed_scrollToBottom [simp]: "wellFormed (scrollToBottom v) = wellFormed v"
  by (simp add: scrollToBottom_def)

lemma wellFormed_setInnerHTML [simp]: "wellFormed (setInnerHTML h html v) = wellFormed v"
  by (rule wellFormed_cong) (simp_all add: setInnerHTML_def)

lemma wellFormed_loaded [simp]: "wellFormed (v\<lparr>loadedScenes := s\<rparr>) = wellFormed v"
  by (rule wellFormed_cong) simp_all

lemma wellFormed_fresh: "wellFormed v \<Longrightarrow> nextHandle v \<notin> set (scenesChildren v)"
  by (auto simp: wellFormed_def)

lemma wellFormed_recordLoaded [simp]: "wellFormed (recordLoaded name v) = wellFormed v"
  by (simp add: recordLoaded_def)

lemma wellFormed_protoInnerHTML [simp]: "wellFormed (v\<lparr>protoInnerHTML := x\<rparr>) = wellFormed v"
  by (rule wellFormed_cong) simp_all

text \<open>The cases of \<open>applyScene\<close>.\<close>

lemma getProperty_Own: "(getProperty inner obj key = Own h) = (obj key = Some h)"
  by (auto simp: getProperty_def split: option.splits)

lemma getProperty_not_Own: "obj key = None \<Longrightarrow> getProperty inner obj key \<noteq> Own h"
  by (simp add: getProperty_Own)


lemma appendSceneDiv_eq:
  "recordLoaded name (appendSceneDiv name html v) =
     v\<lparr>heap := (heap v)(nextHandle v :=
                 \<lparr>elId = [], className = js ''scene-block'', datasetScene = Some name,
                  innerHTML = html\<rparr>),
       nextHandle := Suc (nextHandle v),
       scenesChildren := removeAll (nextHandle v) (scenesChildren v) @ [nextHandle v],
       sceneDivs := (sceneDivs v)(name \<mapsto> nextHandle v),
       loadedScenes := insert name (loadedScenes v)\<rparr>"
  by (simp add: appendSceneDiv_def recordLoaded_def Let_def createElement_def appendChild_def)


lemma applyScene_own:
  assumes "renderSceneBlocks (descriptionText v) (parseScene (sceneContent sc)) = Inr html"
    and "sceneDivs v (sceneName sc) = Some h"
  shows "applyScene sc v =
    (None, v\<lparr>heap := (heap v)(h := (heap v h)\<lparr>innerHTML := html\<rparr>),
             loadedScenes := insert (sceneName sc) (loadedScenes v)\<rparr>)"
  using assms
  by (simp add: applyScene_def getProperty_def Let_def setInnerHTML_def recordLoaded_def)

lemma applyScene_throws:
  assumes "renderSceneBlocks (descriptionText v) (parseScene (sceneContent sc)) = Inl e"
  shows "applyScene sc v = (Some e, v)"
  using assms by (simp add: applyScene_def Let_def)

lemma wellFormed_new_scene:
  assumes wf: "wellFormed v" and none: "sceneDivs v name = None"
  shows "wellFormed (v\<lparr>heap := (heap v)(nextHandle v :=
                 \<lparr>elId = [], className = c, datasetScene = d, innerHTML = html\<rparr>),
             nextHandle := Suc (nextHandle v),
             scenesChildren := removeAll (nextHandle v) (scenesChildren v) @ [nextHandle v],
             sceneDivs := (sceneDivs v)(name \<mapsto> nextHandle v),
             loadedScenes := l\<rparr>)"
proof -
  let ?n = "nextHandle v"
  from wf have fresh: "?n \<notin> set (scenesChildren v)" by (rule wellFormed_fresh)
  then have rm: "removeAll ?n (scenesChildren v) = scenesChildren v" by simp
  have tid: "js ''typing-indicator'' \<noteq> []" by (simp add: js_def)
  from wf have d: "distinct (scenesChildren v)" and b: "\<forall>h\<in>set (scenesChildren v). h < ?n"
    and r: "\<forall>h\<in>ran (sceneDivs v). h \<in> set (scenesChildren v) \<and> \<not> isIndicator v h"
    and i: "inj_on (sceneDivs v) (dom (sceneDivs v))"
    and c: "length (filter (isIndicator v) (scenesChildren v)) \<le> 1"
    by (auto simp: wellFormed_def)
  have ind: "\<And>h. h \<in> set (scenesChildren v) \<Longrightarrow>
      isIndicator (v\<lparr>heap := (heap v)(?n :=
                 \<lparr>elId = [], className = c, datasetScene = d, innerHTML = html\<rparr>),
             nextHandle := Suc ?n,
             scenesChildren := removeAll ?n (scenesChildren v) @ [?n],
             sceneDivs := (sceneDivs v)(name \<mapsto> ?n),
             loadedScenes := l\<rparr>) h = isIndicator v h"
    using fresh by (auto simp: isIndicator_def)
  have newind: "\<not> isIndicator (v\<lparr>heap := (heap v)(?n :=
                 \<lparr>elId = [], className = c, datasetScene = d, innerHTML = html\<rparr>),
             nextHandle := Suc ?n,
             scenesChildren := removeAll ?n (scenesChildren v) @ [?n],
             sceneDivs := (sceneDivs v)(name \<mapsto> ?n),
             loadedScenes := l\<rparr>) ?n"
    using tid by (simp add: isIndicator_def)
  have ranD: "\<And>h. h \<in> ran ((sceneDivs v)(name \<mapsto> ?n)) \<Longrightarrow> h = ?n \<or> h \<in> ran (sceneDivs v)"
    by (auto simp: ran_def split: if_splits)
  have inj: "inj_on ((sceneDivs v)(name \<mapsto> ?n)) (dom ((sceneDivs v)(name \<mapsto> ?n)))"
  proof (rule inj_onI)
    fix x y
    assume x: "x \<in> dom ((sceneDivs v)(name \<mapsto> ?n))" and y: "y \<in> dom ((sceneDivs v)(name \<mapsto> ?n))"
      and e: "((sceneDivs v)(name \<mapsto> ?n)) x = ((sceneDivs v)(name \<mapsto> ?n)) y"
    show "x = y"
    proof (cases "x = name"; cases "y = name")
      assume "x \<noteq> name" "y \<noteq> name"
      with x y e i show ?thesis by (auto dest: inj_onD)
    next
      assume "x = name" "y \<noteq> name"
      with e y have "sceneDivs v y = Some ?n" by auto
      with r fresh show ?thesis by (auto simp: ran_def)
    next
      assume "x \<noteq> name" "y = name"
      with e x have "sceneDivs v x = Some ?n" by auto
      with r fresh show ?thesis by (auto simp: ran_def)
    qed simp
  qed
  have filt: "filter (isIndicator (v\<lparr>heap := (heap v)(?n :=
                 \<lparr>elId = [], className = c, datasetScene = d, innerHTML = html\<rparr>),
             nextHandle := Suc ?n,
             scenesChildren := removeAll ?n (scenesChildren v) @ [?n],
             sceneDivs := (sceneDivs v)(name \<mapsto> ?n),
             loadedScenes := l\<rparr>)) (scenesChildren v) = filter (isIndicator v) (scenesChildren v)"
    using ind by (intro filter_cong) auto
  show ?thesis
    unfolding wellFormed_def
  proof (intro conjI)
    show "distinct (scenesChildren (v\<lparr>heap := (heap v)(?n :=
                 \<lparr>elId = [], className = c, datasetScene = d, innerHTML = html\<rparr>),
             nextHandle := Suc ?n,
             scenesChildren := removeAll ?n (scenesChildren v) @ [?n],
             sceneDivs := (sceneDivs v)(name \<mapsto> ?n),
             loadedScenes := l\<rparr>))"
      using d fresh rm by simp
  qed (use b r rm fresh ind newind inj filt c in \<open>auto dest!: ranD simp: less_Suc_eq\<close>)
qed

lemma wellFormed_applyScene: "wellFormed v \<Longrightarrow> wellFormed (snd (applyScene sc v))"
proof -
  assume wf: "wellFormed v"
  show ?thesis
  proof (cases "renderSceneBlocks (descriptionText v) (parseScene (sceneContent sc))")
    case (Inl e)
    with wf show ?thesis by (simp add: applyScene_throws)
  next
    case (Inr html)
    have new: "sceneDivs v (sceneName sc) = None \<Longrightarrow>
        wellFormed (recordLoaded (sceneName sc) (appendSceneDiv (sceneName sc) html v))"
      unfolding appendSceneDiv_eq by (rule wellFormed_new_scene [OF wf])
    show ?thesis
    proof (cases "sceneDivs v (sceneName sc)")
      case (Some h)
      have "wellFormed (v\<lparr>heap := (heap v)(h := (heap v h)\<lparr>innerHTML := html\<rparr>),
             loadedScenes := insert (sceneName sc) (loadedScenes v)\<rparr>) = wellFormed v"
        by (rule wellFormed_cong) simp_all
      with wf show ?thesis by (simp add: applyScene_own [OF Inr Some])
    next
      case None
      with wf new Inr show ?thesis
        by (cases "getProperty (protoInnerHTML v) (sceneDivs v) (sceneName sc)")
           (simp_all add: applyScene_def Let_def)
    qed
  qed
qed

lemma wellFormed_applyScenes: "wellFormed v \<Longrightarrow> wellFormed (snd (applyScenes scs v))"
proof (induction scs arbitrary: v)
  case Nil
  then show ?case by simp
next
  case (Cons sc scs)
  from Cons.prems have "wellFormed (snd (applyScene sc v))" by (rule wellFormed_applyScene)
  with Cons.IH [of "snd (applyScene sc v)"] show ?case
    by (cases "applyScene sc v") (auto split: option.splits)
qed

lemma wellFormed_issueFetches: "wellFormed (snd (issueFetches net names v)) = wellFormed v"
  by (rule wellFormed_cong) (simp_all add: issueFetches_state)

lemma wellFormed_loadScenes:
  "wellFormed v \<Longrightarrow> wellFormed (snd (loadScenes net sceneList activeScene v))"
proof -
  assume wf: "wellFormed v"
  let ?names = "toFetch (loadedScenes v) sceneList activeScene"
  obtain r v1 where i: "issueFetches net ?names v = (r, v1)" by (cases "issueFetches net ?names v")
  with wellFormed_issueFetches [of net ?names v] wf have w1: "wellFormed v1" by simp
  show ?thesis
  proof (cases r)
    case (Inl e)
    with i w1 wf show ?thesis by (simp add: loadScenes_def Let_def)
  next
    case (Inr responses)
    show ?thesis
    proof (cases "those responses")
      case None
      with i Inr w1 wf show ?thesis by (simp add: loadScenes_def Let_def)
    next
      case (Some results)
      obtain r2 v2 where a: "applyScenes results v1 = (r2, v2)" by (cases "applyScenes results v1")
      with wellFormed_applyScenes [OF w1, of results] have "wellFormed v2" by simp
      with i Inr Some a wf show ?thesis
        by (cases r2) (simp_all add: loadScenes_def Let_def)
    qed
  qed
qed

lemma find_indicator:
  "getTypingIndicator v = Some h \<Longrightarrow> h \<in> set (scenesChildren v) \<and> isIndicator v h"
  by (auto simp: getTypingIndicator_def isIndicator_def find_Some_iff in_set_conv_nth)

lemma find_no_indicator:
  "getTypingIndicator v = None \<Longrightarrow> filter (isIndicator v) (scenesChildren v) = []"
  by (auto simp: getTypingIndicator_def isIndicator_def find_None_iff filter_empty_conv)

lemma filter_removeAll_length:
  "distinct xs \<Longrightarrow> h \<in> set xs \<Longrightarrow>
   length (filter P (removeAll h xs @ [h])) = length (filter P xs)"
  by (induction xs) auto

lemma filter_removeAll_le: "length (filter P (removeAll h xs)) \<le> length (filter P xs)"
  by (induction xs) auto

lemma isIndicator_children [simp]:
  "isIndicator (appendChild h v) = isIndicator v" "isIndicator (removeChild h v) = isIndicator v"
  by (simp_all add: isIndicator_def appendChild_def removeChild_def fun_eq_iff)

lemma wellFormed_removeChild:
  assumes wf: "wellFormed v" and ind: "isIndicator v h"
  shows "wellFormed (removeChild h v)"
proof -
  have c: "length (filter (isIndicator v) (removeAll h (scenesChildren v))) \<le>
        length (filter (isIndicator v) (scenesChildren v))"
    by (rule filter_removeAll_le)
  have s: "scenesChildren (removeChild h v) = removeAll h (scenesChildren v)"
    "nextHandle (removeChild h v) = nextHandle v" "sceneDivs (removeChild h v) = sceneDivs v"
    by (simp_all add: removeChild_def)
  from wf ind have "h \<notin> ran (sceneDivs v)" by (auto simp: wellFormed_def)
  with wf c show ?thesis
    unfolding wellFormed_def s isIndicator_children
    by (auto simp: distinct_removeAll intro: le_trans)
qed

lemma wellFormed_appendChild:
  assumes wf: "wellFormed v" and mem: "h \<in> set (scenesChildren v)"
  shows "wellFormed (appendChild h v)"
proof -
  from wf have d: "distinct (scenesChildren v)" by (simp add: wellFormed_def)
  have c: "length (filter (isIndicator v) (removeAll h (scenesChildren v) @ [h])) =
        length (filter (isIndicator v) (scenesChildren v))"
    using d mem by (rule filter_removeAll_length)
  have s: "scenesChildren (appendChild h v) = removeAll h (scenesChildren v) @ [h]"
    "nextHandle (appendChild h v) = nextHandle v" "sceneDivs (appendChild h v) = sceneDivs v"
    by (simp_all add: appendChild_def)
  have "set (removeAll h (scenesChildren v) @ [h]) = set (scenesChildren v)"
    using mem by auto
  with wf d show ?thesis
    unfolding wellFormed_def s isIndicator_children c
    by (simp add: distinct_removeAll)
qed

lemma renderTypingIndicator_idle:
  "\<not> hasNpc td \<Longrightarrow>
   renderTypingIndicator td v =
     (None, case getTypingIndicator v of Some h \<Rightarrow> removeChild h v | None \<Rightarrow> v)"
  by (simp add: renderTypingIndicator_def Let_def split: option.splits)

lemma wellFormed_new_indicator:
  assumes wf: "wellFormed v" and none: "getTypingIndicator v = None"
  shows "wellFormed (appendChild (nextHandle v)
           (v\<lparr>heap := (heap v)(nextHandle v := e), nextHandle := Suc (nextHandle v)\<rparr>))"
proof -
  let ?n = "nextHandle v"
  let ?v1 = "v\<lparr>heap := (heap v)(?n := e), nextHandle := Suc ?n\<rparr>"
  from wf have fresh: "?n \<notin> set (scenesChildren v)" by (rule wellFormed_fresh)
  then have rm: "removeAll ?n (scenesChildren v) = scenesChildren v" by simp
  from wf have d: "distinct (scenesChildren v)" and b: "\<forall>h\<in>set (scenesChildren v). h < ?n"
    and r: "\<forall>h\<in>ran (sceneDivs v). h \<in> set (scenesChildren v) \<and> \<not> isIndicator v h"
    and i: "inj_on (sceneDivs v) (dom (sceneDivs v))"
    by (auto simp: wellFormed_def)
  have ind: "\<And>h. h \<in> set (scenesChildren v) \<Longrightarrow> isIndicator ?v1 h = isIndicator v h"
    using fresh by (auto simp: isIndicator_def)
  have "filter (isIndicator ?v1) (scenesChildren v) = filter (isIndicator v) (scenesChildren v)"
    using ind by (intro filter_cong) auto
  with find_no_indicator [OF none] have f: "filter (isIndicator ?v1) (scenesChildren v) = []"
    by simp
  have s: "scenesChildren (appendChild ?n ?v1) = scenesChildren v @ [?n]"
    "nextHandle (appendChild ?n ?v1) = Suc ?n" "sceneDivs (appendChild ?n ?v1) = sceneDivs v"
    using rm by (simp_all add: appendChild_def)
  show ?thesis
    unfolding wellFormed_def s isIndicator_children
    using d b r i fresh ind f by (auto simp: less_Suc_eq)
qed

lemma wellFormed_renderTypingIndicator:
  assumes wf: "wellFormed v"
  shows "wellFormed (snd (renderTypingIndicator td v))"
proof (cases "hasNpc td")
  case False
  show ?thesis
  proof (cases "getTypingIndicator v")
    case None
    with False wf show ?thesis by (simp add: renderTypingIndicator_idle)
  next
    case (Some h)
    with find_indicator [OF Some] wf False show ?thesis
      by (simp add: renderTypingIndicator_idle wellFormed_removeChild)
  qed
next
  case True
  show ?thesis
  proof (cases "getTypingIndicator v")
    case (Some h)
    let ?v2 = "appendChild h v"
    let ?v3 = "?v2\<lparr>heap := (heap ?v2)(h := (heap ?v2 h)\<lparr>className := js ''typing-indicator''\<rparr>)\<rparr>"
    have r: "wellFormed (snd (renderTypingIndicator td v)) = wellFormed ?v3"
      using True Some by (simp add: renderTypingIndicator_def Let_def split: sum.splits)
    have "wellFormed ?v3 = wellFormed ?v2" by (rule wellFormed_cong) simp_all
    with wellFormed_appendChild [OF wf] find_indicator [OF Some] have "wellFormed ?v3" by simp
    with r show ?thesis by simp
  next
    case None
    let ?n = "nextHandle v"
    let ?v2 = "appendChild ?n
           (v\<lparr>heap := (heap v)(?n := \<lparr>elId = js ''typing-indicator'', className = [],
                                       datasetScene = None, innerHTML = []\<rparr>),
              nextHandle := Suc ?n\<rparr>)"
    let ?v3 = "?v2\<lparr>heap := (heap ?v2)(?n := (heap ?v2 ?n)\<lparr>className := js ''typing-indicator''\<rparr>)\<rparr>"
    have r: "wellFormed (snd (renderTypingIndicator td v)) = wellFormed ?v3"
      using True None
      by (simp add: renderTypingIndicator_def Let_def createElement_def appendChild_def
          split: sum.splits)
    have "wellFormed ?v3 = wellFormed ?v2" by (rule wellFormed_cong) simp_all
    with wellFormed_new_indicator [OF wf None] have "wellFormed ?v3" by simp
    with r show ?thesis by simp
  qed
qed

lemma wellFormed_update: "wellFormed v \<Longrightarrow> wellFormed (snd (update net v))"
proof -
  assume wf: "wellFormed v"
  show ?thesis
  proof (cases "stateResponse net = None \<or> scenesResponse net = None")
    case True
    have "wellFormed (v\<lparr>effects := effects v @ refreshRequests\<rparr>) = wellFormed v"
      by (rule wellFormed_cong) simp_all
    with wf show ?thesis by (simp add: update_rejected [OF True])
  next
    case False
    then obtain st sceneList where s: "stateResponse net = Some st" "scenesResponse net = Some sceneList"
      by auto
    let ?td = "case typingResponse net of None \<Rightarrow> None | Some t \<Rightarrow> t"
    let ?v3 = "renderSidebar st (v\<lparr>effects := effects v @ refreshRequests, isTyping := hasNpc ?td\<rparr>)"
    let ?active = "if hasNpc ?td then scene (the ?td) else None"
    have "wellFormed ?v3 = wellFormed v" by (rule wellFormed_cong) (simp_all add: renderSidebar_def)
    with wf have w3: "wellFormed ?v3" by simp
    obtain r v4 where l: "loadScenes net sceneList ?active ?v3 = (r, v4)"
      by (cases "loadScenes net sceneList ?active ?v3")
    with wellFormed_loadScenes [OF w3, of net sceneList ?active] have w4: "wellFormed v4" by simp
    show ?thesis
      using l w4 wellFormed_renderTypingIndicator [OF w4, of ?td]
      by (cases r) (simp_all add: update_unfold [OF s])
  qed
qed

lemma wellFormed_poll: "wellFormed v \<Longrightarrow> wellFormed (poll net v)"
proof -
  assume wf: "wellFormed v"
  show ?thesis
  proof (cases "hashResponse net")
    case None
    have "wellFormed (v\<lparr>disconnected := True,
          effects := effects v @ [Fetch (js ''/api/hash''), AddDisconnected, SetTimeout (nextDelay v)]\<rparr>)
        = wellFormed v"
      by (rule wellFormed_cong) simp_all
    with wf show ?thesis by (simp add: poll_hash_failed [OF None])
  next
    case (Some h)
    show ?thesis
    proof (cases "lastHash v = Some h")
      case True
      have "wellFormed (v\<lparr>disconnected := False,
            effects := effects v @ [Fetch (js ''/api/hash''), RemoveDisconnected, SetTimeout (nextDelay v)]\<rparr>)
          = wellFormed v"
        by (rule wellFormed_cong) simp_all
      with wf show ?thesis by (simp add: poll_hash_same [OF Some True])
    next
      case False
      have "wellFormed (afterHash h v) = wellFormed v"
        by (rule wellFormed_cong) (simp_all add: afterHash_def)
      with wf have wa: "wellFormed (afterHash h v)" by simp
      obtain r v' where u: "update net (afterHash h v) = (r, v')"
        by (cases "update net (afterHash h v)")
      with wellFormed_update [OF wa, of net] have w': "wellFormed v'" by simp
      have "wellFormed (v'\<lparr>disconnected := True\<rparr>) = wellFormed v'"
        by (rule wellFormed_cong) simp_all
      with w' u show ?thesis
        by (cases r) (simp_all add: poll_hash_changed [OF Some False])
    qed
  qed
qed


















lemma descriptionText_sameObjects:
  "sameObjects v v' \<Longrightarrow> descriptionText v' = descriptionText v"
  by (rule ext) (simp add: sameObjects_def descriptionText_def split: property.splits)

lemma titlesQuoteFree_sameObjects:
  "sameObjects v v' \<Longrightarrow> titlesQuoteFree v' = titlesQuoteFree v"
  by (simp add: titlesQuoteFree_def descriptionText_sameObjects)

lemma sameObjects_trans:
  "sameObjects a b \<Longrightarrow> sameObjects b c \<Longrightarrow> sameObjects a c"
  by (simp add: sameObjects_def)

lemma sameObjects_applyScene:
  "sceneName sc \<noteq> js ''__proto__'' \<Longrightarrow> sameObjects v (snd (applyScene sc v))"
  by (simp add: sameObjects_def applyScene_defs split: sum.splits property.splits)

lemma sameObjects_applyScenes:
  "\<forall>sc\<in>set scs. sceneName sc \<noteq> js ''__proto__'' \<Longrightarrow>
   sameObjects v (snd (applyScenes scs v))"
proof (induction scs arbitrary: v)
  case Nil
  show ?case by (simp add: sameObjects_def)
next
  case (Cons sc scs)
  obtain r v' where a: "applyScene sc v = (r, v')" by (cases "applyScene sc v")
  from Cons.prems sameObjects_applyScene [of sc v] a have s: "sameObjects v v'" by simp
  show ?case
  proof (cases r)
    case None
    from Cons.IH [of v'] Cons.prems have "sameObjects v' (snd (applyScenes scs v'))" by simp
    with s a None show ?thesis by (simp add: sameObjects_trans)
  next
    case (Some e)
    with s a show ?thesis by simp
  qed
qed

lemma those_Some_set:
  "those xs = Some ys \<Longrightarrow> y \<in> set ys \<Longrightarrow> Some y \<in> set xs"
  by (induction xs arbitrary: ys) (auto split: option.splits)

lemma issueFetches_answers:
  "issueFetches net names v = (Inr rs, v') \<Longrightarrow> Some p \<in> set rs \<Longrightarrow>
   \<exists>u. sceneResponse net u = Some p"
proof (induction names arbitrary: v rs)
  case Nil
  then show ?case by simp
next
  case (Cons name names)
  from Cons.prems(1) obtain enc rs' where
    e: "encodeURIComponent name = Inr enc" and
    i: "issueFetches net names (logEffect (Fetch (sceneUrl enc)) v) = (Inr rs', v')" and
    rs: "rs = sceneResponse net (sceneUrl enc) # rs'"
    by (auto split: sum.splits prod.splits)
  from Cons.prems(2) rs have "sceneResponse net (sceneUrl enc) = Some p \<or> Some p \<in> set rs'"
    by auto
  with Cons.IH [OF i] show ?case by blast
qed

lemma sameObjects_loadScenes:
  assumes "noProtoScene net"
  shows "sameObjects v (snd (loadScenes net sceneList activeScene v))"
proof -
  let ?names = "toFetch (loadedScenes v) sceneList activeScene"
  obtain r v' where i: "issueFetches net ?names v = (r, v')" by (cases "issueFetches net ?names v")
  with issueFetches_state [of net ?names v] have v': "sameObjects v v'"
    by (simp add: sameObjects_def)
  show ?thesis
  proof (cases r)
    case (Inl e)
    with i v' show ?thesis by (simp add: loadScenes_def Let_def sameObjects_def)
  next
    case (Inr rs)
    show ?thesis
    proof (cases "those rs")
      case None
      with i Inr v' show ?thesis
        by (simp add: loadScenes_def Let_def sameObjects_def logEffect_def)
    next
      case (Some results)
      have "\<forall>sc\<in>set results. sceneName sc \<noteq> js ''__proto__''"
      proof
        fix sc assume "sc \<in> set results"
        with Some have "Some sc \<in> set rs" by (rule those_Some_set)
        with i Inr issueFetches_answers [of net ?names v rs v' sc]
        obtain u where "sceneResponse net u = Some sc" by blast
        with assms show "sceneName sc \<noteq> js ''__proto__''" by (simp add: noProtoScene_def)
      qed
      then have a: "sameObjects v' (snd (applyScenes results v'))"
        by (rule sameObjects_applyScenes)
      obtain q v'' where q: "applyScenes results v' = (q, v'')" by (cases "applyScenes results v'")
      with a v' have "sameObjects v v''" by (simp add: sameObjects_def)
      with i Inr Some q show ?thesis
        by (cases q)
           (simp_all add: loadScenes_def Let_def sameObjects_def logEffect_def scrollToBottom_def)
    qed
  qed
qed



lemma sameObjects_renderTypingIndicator:
  "sameObjects v (snd (renderTypingIndicator td v))"
  by (auto simp: sameObjects_def renderTypingIndicator_def Let_def createElement_def
      appendChild_def removeChild_def setInnerHTML_def scrollToBottom_def logEffect_def
      split: option.splits sum.splits prod.splits if_splits)

lemma sameObjects_update:
  assumes "noProtoScene net"
  shows "sameObjects v (snd (update net v))"
proof (cases "stateResponse net = None \<or> scenesResponse net = None")
  case True
  then show ?thesis by (simp add: update_rejected sameObjects_def)
next
  case False
  then obtain st sceneList where
    s: "stateResponse net = Some st" "scenesResponse net = Some sceneList" by auto
  let ?td = "case typingResponse net of None \<Rightarrow> None | Some t \<Rightarrow> t"
  let ?v3 = "renderSidebar st (v\<lparr>effects := effects v @ refreshRequests, isTyping := hasNpc ?td\<rparr>)"
  let ?active = "if hasNpc ?td then scene (the ?td) else None"
  have a: "sameObjects v ?v3" by (simp add: sameObjects_def renderSidebar_def)
  obtain r v4 where l: "loadScenes net sceneList ?active ?v3 = (r, v4)"
    by (cases "loadScenes net sceneList ?active ?v3")
  with sameObjects_loadScenes [OF assms, of ?v3 sceneList ?active] a
  have b: "sameObjects v v4" by (simp add: sameObjects_def)
  show ?thesis
  proof (cases r)
    case None
    with l update_continues [OF s refl refl, of v v4]
    have "update net v = renderTypingIndicator ?td v4" by simp
    with sameObjects_renderTypingIndicator [of v4 ?td] b show ?thesis
      by (simp add: sameObjects_def)
  next
    case (Some e)
    with l b show ?thesis
      unfolding update_unfold [OF s] by simp
  qed
qed

lemma sameObjects_poll:
  assumes "noProtoScene net"
  shows "sameObjects v (poll net v)"
proof (cases "hashResponse net")
  case None
  then show ?thesis by (simp add: poll_def Let_def logEffect_def sameObjects_def)
next
  case (Some h)
  let ?w = "logEffect RemoveDisconnected
              ((logEffect (Fetch (js ''/api/hash'')) v)\<lparr>disconnected := False\<rparr>)"
  have w: "sameObjects v ?w" by (simp add: logEffect_def sameObjects_def)
  show ?thesis
  proof (cases "Some h = lastHash ?w")
    case True
    then have "lastHash v = Some h" by (simp add: logEffect_def)
    with Some show ?thesis by (simp add: poll_def Let_def logEffect_def sameObjects_def)
  next
    case False
    obtain r v' where u: "update net (?w\<lparr>lastHash := Some h\<rparr>) = (r, v')"
      by (cases "update net (?w\<lparr>lastHash := Some h\<rparr>)")
    with sameObjects_update [OF assms, of "?w\<lparr>lastHash := Some h\<rparr>"]
    have "sameObjects v v'" by (simp add: logEffect_def sameObjects_def)
    with Some False u show ?thesis
      by (cases r) (simp_all add: poll_def Let_def logEffect_def sameObjects_def)
  qed
qed

lemma titlesQuoteFree_poll:
  "noProtoScene net \<Longrightarrow> titlesQuoteFree v \<Longrightarrow> titlesQuoteFree (poll net v)"
  by (simp add: titlesQuoteFree_sameObjects [OF sameObjects_poll])




lemma uriUnreserved_marks:
  "uriUnreserved 0x27 \<and> uriUnreserved 0x28 \<and> uriUnreserved 0x29 \<and> uriUnreserved 0x2D \<and>
   uriUnreserved 0x7E \<and> \<not> uriUnreserved 0x2F \<and> \<not> uriUnreserved 0x20"
  by (simp add: uriUnreserved_def js_def)

end
